theory Spec2Isabelle
  imports Complex_Main
begin

section \<open>Text primitives of the website monitor\<close>

text \<open>
  The monitor (\<^verbatim>\<open>website-monitor.py\<close>) works on Python \<^verbatim>\<open>str\<close> values. They are
  modelled as \<^typ>\<open>string\<close>, one \<^typ>\<open>char\<close> per code point, which covers the code
  points below 256. The character classes below are those of CPython restricted
  to that range.
\<close>

definition isspace :: "char \<Rightarrow> bool" where
  \<comment> \<open>\<^verbatim>\<open>str.isspace\<close> on one character, which is also the class \<^verbatim>\<open>\s\<close> of \<^verbatim>\<open>re\<close>.\<close>
  "isspace c =
     (c \<in> set [CHR 0x09, CHR 0x0A, CHR 0x0B, CHR 0x0C, CHR 0x0D,
                CHR 0x1C, CHR 0x1D, CHR 0x1E, CHR 0x1F, CHR 0x20, CHR 0x85, CHR 0xA0])"

function collapse_ws :: "string \<Rightarrow> string" where
  \<comment> \<open>\<^verbatim>\<open>re.sub(r'\s+', ' ', s)\<close>: every maximal run of whitespace becomes one space.\<close>
  "collapse_ws [] = []"
| "collapse_ws (c # cs) =
     (if isspace c then CHR '' '' # collapse_ws (dropWhile isspace cs)
      else c # collapse_ws cs)"
  by pat_completeness auto
termination
  by (relation "measure length") (auto simp: length_dropWhile_le less_Suc_eq_le)

definition strip :: "string \<Rightarrow> string" where
  \<comment> \<open>\<^verbatim>\<open>s.strip()\<close>: whitespace removed at both ends.\<close>
  "strip s = rev (dropWhile isspace (rev (dropWhile isspace s)))"

definition normalize_ws :: "string \<Rightarrow> string" where
  \<comment> \<open>The last step of \<^verbatim>\<open>extract_content\<close>:
      \<^verbatim>\<open>re.sub(r'\s+', ' ', clean_content).strip()\<close>.\<close>
  "normalize_ws s = strip (collapse_ws s)"

fun tidy :: "string \<Rightarrow> bool" where
  \<comment> \<open>Every whitespace character is a single space with no whitespace after it.\<close>
  "tidy [] = True"
| "tidy [c] = (if isspace c then c = CHR '' '' else True)"
| "tidy (c # d # cs) =
     ((if isspace c then c = CHR '' '' \<and> \<not> isspace d else True) \<and> tidy (d # cs))"


definition is_linebreak :: "char \<Rightarrow> bool" where
  \<comment> \<open>The line boundaries of \<^verbatim>\<open>str.splitlines\<close>: LF, VT, FF, CR, FS, GS, RS, NEL.\<close>
  "is_linebreak c =
     (c \<in> set [CHR 0x0A, CHR 0x0B, CHR 0x0C, CHR 0x0D, CHR 0x1C, CHR 0x1D, CHR 0x1E, CHR 0x85])"

fun split_from :: "string \<Rightarrow> string \<Rightarrow> string list" where
  \<comment> \<open>The scan of \<^verbatim>\<open>str.splitlines\<close>; the first argument is the line read so far.
      CR LF is one boundary; a text that ends with a boundary has no empty last line.\<close>
  "split_from cur [] = (if cur = [] then [] else [cur])"
| "split_from cur (c # cs) =
     (if c = CHR 0x0D then
        (case cs of
           [] \<Rightarrow> cur # split_from [] cs
         | d # ds \<Rightarrow> if d = CHR 0x0A then cur # split_from [] ds else cur # split_from [] cs)
      else if is_linebreak c then cur # split_from [] cs
      else split_from (cur @ [c]) cs)"

definition splitlines :: "string \<Rightarrow> string list" where
  "splitlines s = split_from [] s"

fun universal_newlines :: "string \<Rightarrow> string" where
  \<comment> \<open>Reading a file opened in text mode: CR LF and a lone CR arrive as LF.\<close>
  "universal_newlines [] = []"
| "universal_newlines (c # cs) =
     (if c = CHR 0x0D then
        (case cs of
           [] \<Rightarrow> [CHR 0x0A]
         | d # ds \<Rightarrow>
             if d = CHR 0x0A then CHR 0x0A # universal_newlines ds
             else CHR 0x0A # universal_newlines cs)
      else c # universal_newlines cs)"

fun join :: "string list \<Rightarrow> string" where
  \<comment> \<open>\<^verbatim>\<open>'\n'.join(lines)\<close>\<close>
  "join [] = []"
| "join [l] = l"
| "join (l # ls) = l @ CHR 0x0A # join ls"

definition startswith :: "string \<Rightarrow> string \<Rightarrow> bool" where
  \<comment> \<open>\<^verbatim>\<open>s.startswith(prefix)\<close>\<close>
  "startswith s prefix = (take (length prefix) s = prefix)"

definition lower :: "string \<Rightarrow> string" where
  \<comment> \<open>\<^verbatim>\<open>s.lower()\<close> on code points below 256: A-Z and the capital letters of Latin-1.\<close>
  "lower s =
     map (\<lambda>c. let n = (of_char c :: nat)
               in if (65 \<le> n \<and> n \<le> 90) \<or> (192 \<le> n \<and> n \<le> 222 \<and> n \<noteq> 215)
                  then char_of (n + 32) else c) s"

section \<open>Configuration, collaborators and the state of the world\<close>

text \<open>
  The configuration is the dictionary \<^verbatim>\<open>DEFAULT_CONFIG\<close> describes. The interval of a
  site is an option: \<^const>\<open>None\<close> when the key is absent or null. Its selector is
  \<^const>\<open>None\<close> when the key is absent, which \<^verbatim>\<open>site.get('selector', 'body')\<close> reads
  as \<^verbatim>\<open>'body'\<close>; a null selector selects the whole page, as the empty one does.
  \<^verbatim>\<open>retry_delay\<close> is the argument of \<^verbatim>\<open>time.sleep\<close>, a duration.
\<close>

record email_config =
  email_enabled :: bool
  smtp_server :: string
  smtp_port :: int
  username :: string
  password :: string
  from_addr :: string
  to_addr :: "string list"

record notification_config =
  email :: email_config
  desktop_enabled :: bool

record site =
  name :: string
  url :: string
  selector :: "string option"
  ignore_patterns :: "string list"
  site_check_interval :: "int option"
  active :: bool

record config =
  check_interval :: int
  user_agent :: string
  timeout :: int
  retry_count :: int
  retry_delay :: nat
  data_dir :: string
  notification :: notification_config
  sites :: "site list"

datatype response = Response string | RequestException

datatype check_file = Unparsable | Check_info real string

datatype event =
    Log_checking string string
  | Http_get string
  | Log_fetch_retry string
  | Sleep nat
  | Log_fetch_failed string
  | Log_no_content string
  | Log_new_baseline string
  | Log_change_detected string
  | Log_no_change string
  | Log_email_disabled
  | Log_email_missing_field string
  | Log_email_no_recipient
  | Smtp_send "string list" string string
  | Log_email_sent "string list"
  | Log_email_error
  | Desktop_notify string string
  | Log_desktop_error
  | Log_skip_disabled string
  | Log_list_empty
  | Log_reset string
  | Log_site_not_found string
  | Log_daemon_start
  | Log_daemon_stopped

text \<open>
  What the monitor calls and does not implement is a parameter: the MD5 digest of
  \<^verbatim>\<open>hashlib\<close>, the answer of the network to the k-th request for a URL
  (\<^verbatim>\<open>requests.get\<close> followed by \<^verbatim>\<open>raise_for_status\<close>), the text BeautifulSoup
  extracts from a page (\<^const>\<open>None\<close> when it raises), \<^verbatim>\<open>difflib.Differ().compare\<close>,
  the report of \<^verbatim>\<open>difflib.HtmlDiff\<close>, \<^verbatim>\<open>strftime\<close>, and whether the SMTP server
  and the desktop take a notification at a given time.
\<close>

record env =
  md5_hexdigest :: "string \<Rightarrow> string"
  requests_get :: "string \<Rightarrow> nat \<Rightarrow> response"
  soup_text :: "string \<Rightarrow> string \<Rightarrow> string list \<Rightarrow> string option"
  differ_compare :: "string list \<Rightarrow> string list \<Rightarrow> string list"
  html_diff_file :: "string list \<Rightarrow> string list \<Rightarrow> string \<Rightarrow> string \<Rightarrow> string \<Rightarrow> string"
  no_report_text :: "string \<Rightarrow> string"
  strftime :: "real \<Rightarrow> string"
  smtp_deliver :: "real \<Rightarrow> site \<Rightarrow> string \<Rightarrow> bool"
  desktop_show :: "real \<Rightarrow> site \<Rightarrow> bool"

text \<open>
  The world the monitor acts on: the text files under the data directory, by directory
  and file name; the \<^verbatim>\<open>last_check.json\<close> of each site directory; the clock read by
  \<^verbatim>\<open>time.time()\<close>, which \<^verbatim>\<open>time.sleep\<close> advances; the number of requests each URL
  has received; and the trace of what the process logged, requested and sent, oldest
  first. File operations themselves succeed: a full disk or a missing permission is
  outside the model, and so are the \<^verbatim>\<open>except\<close> branches of \<^verbatim>\<open>save_content\<close> and
  \<^verbatim>\<open>load_content\<close>. Text is written as it is and read with universal newlines, as on
  a POSIX host. Timestamps are real numbers, without the rounding of floats.
\<close>

type_synonym path = "string \<times> string"

record world =
  text_files :: "path \<Rightarrow> string option"
  last_checks :: "string \<Rightarrow> check_file option"
  clock :: real
  requests_sent :: "string \<Rightarrow> nat"
  trace :: "event list"

definition log_event :: "event \<Rightarrow> world \<Rightarrow> world" where
  "log_event e w = w\<lparr>trace := trace w @ [e]\<rparr>"

definition sleep :: "nat \<Rightarrow> world \<Rightarrow> world" where
  \<comment> \<open>\<^verbatim>\<open>time.sleep(d)\<close>\<close>
  "sleep d w = w\<lparr>clock := clock w + real d, trace := trace w @ [Sleep d]\<rparr>"

definition is_notification :: "event \<Rightarrow> bool" where
  "is_notification e =
     (case e of Smtp_send _ _ _ \<Rightarrow> True | Desktop_notify _ _ \<Rightarrow> True | _ \<Rightarrow> False)"

definition notifications :: "world \<Rightarrow> event list" where
  "notifications w = filter is_notification (trace w)"

section \<open>The snapshot store\<close>

datatype file_op = Truncate path | Append path string

fun apply_file_op :: "file_op \<Rightarrow> (path \<Rightarrow> string option) \<Rightarrow> (path \<Rightarrow> string option)" where
  "apply_file_op (Truncate p) fs = fs(p \<mapsto> [])"
| "apply_file_op (Append p s) fs = fs(p \<mapsto> (case fs p of None \<Rightarrow> s | Some old \<Rightarrow> old @ s))"

fun file_op_path :: "file_op \<Rightarrow> path" where
  "file_op_path (Truncate p) = p"
| "file_op_path (Append p s) = p"

definition save_steps :: "string \<Rightarrow> path \<Rightarrow> file_op list" where
  \<comment> \<open>\<^verbatim>\<open>with open(file_path, 'w', encoding='utf-8') as f: f.write(content)\<close>:
      opening for writing creates or empties the file itself, then the content
      is written to it.\<close>
  "save_steps content file_path = [Truncate file_path, Append file_path content]"

definition run_file_ops :: "file_op list \<Rightarrow> world \<Rightarrow> world" where
  "run_file_ops ops w = w\<lparr>text_files := fold apply_file_op ops (text_files w)\<rparr>"

definition save_content :: "string \<Rightarrow> path \<Rightarrow> world \<Rightarrow> world" where
  \<comment> \<open>The callers ignore the value \<^verbatim>\<open>save_content\<close> returns.\<close>
  "save_content content file_path w = run_file_ops (save_steps content file_path) w"

definition load_content :: "path \<Rightarrow> world \<Rightarrow> string option" where
  \<comment> \<open>\<^const>\<open>None\<close> when the file does not exist, else what \<^verbatim>\<open>f.read()\<close> returns.\<close>
  "load_content file_path w = map_option universal_newlines (text_files w file_path)"

definition get_site_data_path :: "env \<Rightarrow> config \<Rightarrow> site \<Rightarrow> string" where
  \<comment> \<open>\<^verbatim>\<open>Path(config['data_dir']) / hashlib.md5(site['url'].encode()).hexdigest()\<close>\<close>
  "get_site_data_path e cfg s = data_dir cfg @ ''/'' @ md5_hexdigest e (url s)"

definition write_last_check :: "env \<Rightarrow> string \<Rightarrow> world \<Rightarrow> world" where
  \<comment> \<open>\<^verbatim>\<open>json.dump({"timestamp": time.time(), "datetime": ...strftime(...)}, f)\<close>
      into \<^verbatim>\<open>last_check.json\<close> of the site directory.\<close>
  "write_last_check e site_dir w =
     w\<lparr>last_checks := (last_checks w)(site_dir \<mapsto> Check_info (clock w) (strftime e (clock w)))\<rparr>"

section \<open>Fetcher, extractor, differencer\<close>

function fetch_attempts :: "env \<Rightarrow> string \<Rightarrow> config \<Rightarrow> int \<Rightarrow> world \<Rightarrow> string option \<times> world" where
  \<comment> \<open>The loop \<^verbatim>\<open>for attempt in range(config['retry_count'])\<close> of
      \<^verbatim>\<open>fetch_website_content\<close>, from a given attempt on. A loop that ends without
      returning makes the function return \<^verbatim>\<open>None\<close>.\<close>
  "fetch_attempts e u cfg attempt w =
     (if attempt < retry_count cfg then
        (let w1 = log_event (Http_get u)
                    (w\<lparr>requests_sent := (requests_sent w)(u := Suc (requests_sent w u))\<rparr>)
         in case requests_get e u (requests_sent w u) of
              Response text \<Rightarrow> (Some text, w1)
            | RequestException \<Rightarrow>
                if attempt < retry_count cfg - 1
                then fetch_attempts e u cfg (attempt + 1)
                       (sleep (retry_delay cfg) (log_event (Log_fetch_retry u) w1))
                else (None, log_event (Log_fetch_failed u) w1))
      else (None, w))"
  by pat_completeness auto
termination
  by (relation "measure (\<lambda>(e, u, cfg, attempt, w). nat (retry_count cfg - attempt))") auto

definition fetch_website_content :: "env \<Rightarrow> string \<Rightarrow> config \<Rightarrow> world \<Rightarrow> string option \<times> world" where
  "fetch_website_content e u cfg w = fetch_attempts e u cfg 0 w"

definition extract_content :: "env \<Rightarrow> string \<Rightarrow> string \<Rightarrow> string list \<Rightarrow> string" where
  \<comment> \<open>Selection, ignore patterns and \<^verbatim>\<open>get_text\<close> are BeautifulSoup's and \<^verbatim>\<open>re\<close>'s;
      the whitespace normalization is the function's own. When anything raises, the
      page is returned as it came. The warnings the function logs are left out.\<close>
  "extract_content e html sel patterns =
     (case soup_text e html sel patterns of
        None \<Rightarrow> html
      | Some clean_content \<Rightarrow> normalize_ws clean_content)"

definition compute_diff :: "env \<Rightarrow> string \<Rightarrow> string \<Rightarrow> string option" where
  "compute_diff e old_content new_content =
     (if old_content = [] \<or> new_content = [] then None
      else
        (let diff = differ_compare e (splitlines old_content) (splitlines new_content);
             changes = filter (\<lambda>line. startswith line ''+ '' \<or> startswith line ''- '') diff
         in if changes = [] then None else Some (join changes)))"

definition format_diff_html :: "env \<Rightarrow> string \<Rightarrow> string \<Rightarrow> string \<Rightarrow> string \<Rightarrow> real \<Rightarrow> string" where
  "format_diff_html e old_content new_content site_name u now =
     (if old_content = [] \<or> new_content = [] then no_report_text e site_name
      else html_diff_file e (splitlines old_content) (splitlines new_content)
             site_name u (strftime e now))"

section \<open>Notification\<close>

definition send_email_notification :: "env \<Rightarrow> site \<Rightarrow> string \<Rightarrow> config \<Rightarrow> world \<Rightarrow> bool \<times> world" where
  "send_email_notification e s diff cfg w =
     (let ec = email (notification cfg) in
      if \<not> email_enabled ec then (False, log_event Log_email_disabled w)
      else if smtp_server ec = [] then (False, log_event (Log_email_missing_field ''smtp_server'') w)
      else if smtp_port ec = 0 then (False, log_event (Log_email_missing_field ''smtp_port'') w)
      else if username ec = [] then (False, log_event (Log_email_missing_field ''username'') w)
      else if password ec = [] then (False, log_event (Log_email_missing_field ''password'') w)
      else if from_addr ec = [] then (False, log_event (Log_email_missing_field ''from_addr'') w)
      else if to_addr ec = [] then (False, log_event Log_email_no_recipient w)
      else
        (let w1 = log_event (Smtp_send (to_addr ec) (name s) (take 500 diff)) w in
         if smtp_deliver e (clock w) s diff then (True, log_event (Log_email_sent (to_addr ec)) w1)
         else (False, log_event Log_email_error w1)))"

definition send_desktop_notification :: "env \<Rightarrow> site \<Rightarrow> string \<Rightarrow> world \<Rightarrow> bool \<times> world" where
  \<comment> \<open>Every branch either shows the notification and returns \<^verbatim>\<open>True\<close>, or raises, which
      is logged and returns \<^verbatim>\<open>False\<close>.\<close>
  "send_desktop_notification e s diff w =
     (let w1 = log_event (Desktop_notify (name s) (url s)) w in
      if desktop_show e (clock w) s then (True, w1)
      else (False, log_event Log_desktop_error w1))"

definition send_notification :: "env \<Rightarrow> site \<Rightarrow> string \<Rightarrow> config \<Rightarrow> world \<Rightarrow> bool \<times> world" where
  "send_notification e s diff cfg w =
     (let (sent1, w1) =
            (if email_enabled (email (notification cfg))
             then send_email_notification e s diff cfg w else (False, w));
          (sent2, w2) =
            (if desktop_enabled (notification cfg)
             then send_desktop_notification e s diff w1 else (False, w1))
      in (sent1 \<or> sent2, w2))"

section \<open>The monitor loop\<close>

definition check_website_changes :: "env \<Rightarrow> site \<Rightarrow> config \<Rightarrow> bool \<Rightarrow> world \<Rightarrow> bool \<times> world" where
  "check_website_changes e s cfg force_update w =
     (let w0 = log_event (Log_checking (name s) (url s)) w;
          site_dir = get_site_data_path e cfg s;
          content_file = (site_dir, ''content.txt'');
          html_file = (site_dir, ''raw.html'');
          diff_file = (site_dir, ''diff.txt'');
          html_diff_file = (site_dir, ''diff.html'');
          (html_content, w1) = fetch_website_content e (url s) cfg w0
      in case html_content of
           None \<Rightarrow> (False, log_event (Log_no_content (name s)) w1)
         | Some html \<Rightarrow>
             if html = [] then (False, log_event (Log_no_content (name s)) w1)
             else
               (let w2 = save_content html html_file w1;
                    extracted_content =
                      extract_content e html
                        (case selector s of None \<Rightarrow> ''body'' | Some sel \<Rightarrow> sel)
                        (ignore_patterns s);
                    previous_content = load_content content_file w2
                in if previous_content = None \<or> previous_content = Some [] \<or> force_update
                   then
                     (False,
                      write_last_check e site_dir
                        (save_content extracted_content content_file
                          (log_event (Log_new_baseline (name s)) w2)))
                   else
                     (let previous = the previous_content;
                          diff = compute_diff e previous extracted_content;
                          w3 = write_last_check e site_dir w2
                      in case diff of
                           None \<Rightarrow> (False, log_event (Log_no_change (name s)) w3)
                         | Some d \<Rightarrow>
                             if d = [] then (False, log_event (Log_no_change (name s)) w3)
                             else
                               (let w4 = save_content d diff_file
                                           (log_event (Log_change_detected (name s)) w3);
                                    html_diff =
                                      format_diff_html e previous extracted_content
                                        (name s) (url s) (clock w4);
                                    w5 = save_content html_diff html_diff_file w4;
                                    w6 = save_content extracted_content content_file w5
                                in (True, snd (send_notification e s d cfg w6))))))"

definition find_site_by_name_or_url :: "site list \<Rightarrow> string \<Rightarrow> site option" where
  "find_site_by_name_or_url ss name_or_url =
     find (\<lambda>s. lower (name s) = lower name_or_url \<or> lower (url s) = lower name_or_url) ss"

fun check_sites_loop :: "env \<Rightarrow> config \<Rightarrow> site list \<Rightarrow> bool \<Rightarrow> world \<Rightarrow> bool \<times> world" where
  \<comment> \<open>The loop \<^verbatim>\<open>for site in sites\<close> of \<^verbatim>\<open>check_sites\<close>, with the flag
      \<^verbatim>\<open>changes_detected\<close>.\<close>
  "check_sites_loop e cfg [] changes_detected w = (changes_detected, w)"
| "check_sites_loop e cfg (s # rest) changes_detected w =
     (if \<not> active s
      then check_sites_loop e cfg rest changes_detected (log_event (Log_skip_disabled (name s)) w)
      else
        (let (changed, w1) = check_website_changes e s cfg False w
         in check_sites_loop e cfg rest (if changed then True else changes_detected) w1))"

definition check_sites :: "env \<Rightarrow> config \<Rightarrow> string option \<Rightarrow> world \<Rightarrow> bool option \<times> world" where
  \<comment> \<open>The result is \<^const>\<open>None\<close> where the function returns without a value.\<close>
  "check_sites e cfg reset_site w =
     (if sites cfg = [] then (None, log_event Log_list_empty w)
      else if reset_site \<noteq> None \<and> reset_site \<noteq> Some [] then
        (case find_site_by_name_or_url (sites cfg) (the reset_site) of
           Some s \<Rightarrow>
             (None, snd (check_website_changes e s cfg True (log_event (Log_reset (name s)) w)))
         | None \<Rightarrow> (None, log_event (Log_site_not_found (the reset_site)) w))
      else
        (let (changes_detected, w1) = check_sites_loop e cfg (sites cfg) False w
         in (Some changes_detected, w1)))"

section \<open>The daemon\<close>

definition last_check_time :: "env \<Rightarrow> config \<Rightarrow> site \<Rightarrow> world \<Rightarrow> real" where
  \<comment> \<open>0 when \<^verbatim>\<open>last_check.json\<close> does not exist or cannot be parsed.\<close>
  "last_check_time e cfg s w =
     (case last_checks w (get_site_data_path e cfg s) of
        None \<Rightarrow> 0
      | Some Unparsable \<Rightarrow> 0
      | Some (Check_info t d) \<Rightarrow> t)"

definition effective_interval :: "config \<Rightarrow> site \<Rightarrow> int" where
  \<comment> \<open>\<^verbatim>\<open>site.get('check_interval') or config['check_interval']\<close>: an absent, null or
      zero interval of the site gives the global one.\<close>
  "effective_interval cfg s =
     (case site_check_interval s of
        None \<Rightarrow> check_interval cfg
      | Some i \<Rightarrow> if i = 0 then check_interval cfg else i)"

definition daemon_visit :: "env \<Rightarrow> config \<Rightarrow> real \<Rightarrow> site \<Rightarrow> world \<Rightarrow> world" where
  \<comment> \<open>The body of \<^verbatim>\<open>for site in sites\<close> in \<^verbatim>\<open>run_daemon\<close>; \<^verbatim>\<open>now\<close> was read when
      the tick began.\<close>
  "daemon_visit e cfg now s w =
     (if \<not> active s then w
      else if now - last_check_time e cfg s w \<ge> real_of_int (effective_interval cfg s)
           then snd (check_website_changes e s cfg False w)
           else w)"

definition daemon_tick :: "env \<Rightarrow> config \<Rightarrow> world \<Rightarrow> world" where
  \<comment> \<open>One round of \<^verbatim>\<open>while True\<close>.\<close>
  "daemon_tick e cfg w = sleep 60 (fold (daemon_visit e cfg (clock w)) (sites cfg) w)"

fun daemon_ticks :: "env \<Rightarrow> config \<Rightarrow> nat \<Rightarrow> world \<Rightarrow> world" where
  "daemon_ticks e cfg 0 w = log_event Log_daemon_stopped w"
| "daemon_ticks e cfg (Suc n) w = daemon_ticks e cfg n (daemon_tick e cfg w)"

definition run_daemon :: "env \<Rightarrow> config \<Rightarrow> nat \<Rightarrow> world \<Rightarrow> world" where
  \<comment> \<open>The daemon until a \<^verbatim>\<open>KeyboardInterrupt\<close> stops it after the given number
      of rounds.\<close>
  "run_daemon e cfg rounds w =
     (let w0 = log_event Log_daemon_start w in
      if sites cfg = [] then log_event Log_list_empty w0
      else daemon_ticks e cfg rounds w0)"

section \<open>The contract of the line differ\<close>

text \<open>
  \<^verbatim>\<open>difflib.Differ().compare(a, b)\<close> returns a delta: lines of \<open>a\<close> and \<open>b\<close> behind a
  two-letter code (\<^verbatim>\<open>'- '\<close> only in the first sequence, \<^verbatim>\<open>'+ '\<close> only in the second,
  \<^verbatim>\<open>'  '\<close> common to both, \<^verbatim>\<open>'? '\<close> in neither). \<^verbatim>\<open>difflib.restore\<close> gets either
  sequence back from a delta, and two equal sequences give a delta of common lines
  only. The theorems about the differ hold for every function of that contract;
  \<open>naive_compare\<close> is one.
\<close>

definition restore :: "string \<Rightarrow> string list \<Rightarrow> string list" where
  "restore tag delta =
     map (drop 2) (filter (\<lambda>line. take 2 line = ''  '' \<or> take 2 line = tag) delta)"

definition differ_contract :: "(string list \<Rightarrow> string list \<Rightarrow> string list) \<Rightarrow> bool" where
  "differ_contract compare =
     (\<forall>a b. restore ''- '' (compare a b) = a \<and> restore ''+ '' (compare a b) = b \<and>
            compare a a = map (\<lambda>line. ''  '' @ line) a)"

definition naive_compare :: "string list \<Rightarrow> string list \<Rightarrow> string list" where
  "naive_compare a b =
     (if a = b then map (\<lambda>line. ''  '' @ line) a
      else map (\<lambda>line. ''- '' @ line) a @ map (\<lambda>line. ''+ '' @ line) b)"

section \<open>Comparing two runs\<close>

definition agree_apart_from :: "string \<Rightarrow> world \<Rightarrow> world \<Rightarrow> bool" where
  \<comment> \<open>Two worlds with the same text files but for the HTML reports, the same count of
      requests for every URL but one, and the same notifications sent.\<close>
  "agree_apart_from u w w' =
     ((\<forall>d f. f \<noteq> ''diff.html'' \<longrightarrow> text_files w (d, f) = text_files w' (d, f)) \<and>
      (\<forall>v. v \<noteq> u \<longrightarrow> requests_sent w v = requests_sent w' v) \<and>
      notifications w = notifications w')"

definition notification_attempts :: "config \<Rightarrow> site \<Rightarrow> string \<Rightarrow> event list \<times> event list" where
  \<comment> \<open>What \<^verbatim>\<open>send_notification\<close> hands to the SMTP server and to the desktop.\<close>
  "notification_attempts cfg s d =
     (let ec = email (notification cfg) in
      (if email_enabled ec \<and> smtp_server ec \<noteq> [] \<and> smtp_port ec \<noteq> 0 \<and> username ec \<noteq> [] \<and>
          password ec \<noteq> [] \<and> from_addr ec \<noteq> [] \<and> to_addr ec \<noteq> []
       then [Smtp_send (to_addr ec) (name s) (take 500 d)] else [],
       if desktop_enabled (notification cfg) then [Desktop_notify (name s) (url s)] else []))"

section \<open>An example run\<close>

text \<open>
  The site and the settings of \<^verbatim>\<open>DEFAULT_CONFIG\<close>, a network that serves one page and
  then a changed one, and a data directory with nothing in it.
\<close>

definition example_site :: site where
  "example_site =
     \<lparr>name = ''Example'', url = ''https://example.com'', selector = Some ''#content'',
      ignore_patterns = [], site_check_interval = Some 60, active = True\<rparr>"

definition example_config :: config where
  "example_config =
     \<lparr>check_interval = 3600, user_agent = ''Mozilla/5.0'', timeout = 30, retry_count = 3,
      retry_delay = 5, data_dir = ''monitor_data'',
      notification =
        \<lparr>email = \<lparr>email_enabled = False, smtp_server = ''smtp.gmail.com'', smtp_port = 587,
                   username = [], password = [], from_addr = [], to_addr = []\<rparr>,
         desktop_enabled = True\<rparr>,
      sites = [example_site]\<rparr>"

definition example_env :: env where
  "example_env =
     \<lparr>md5_hexdigest = (\<lambda>u. ''c984d06aafbecf6bc55569f964148ea3''),
      requests_get = (\<lambda>u k. if k = 0 then Response ''<div id=content>Hello</div>''
                              else Response ''<div id=content>Hello  World</div>''),
      soup_text = (\<lambda>html sel patterns.
                     if html = ''<div id=content>Hello</div>'' then Some ''Hello''
                     else if html = ''<div id=content>Hello  World</div>'' then Some ''Hello  World''
                     else None),
      differ_compare = naive_compare,
      html_diff_file = (\<lambda>a b n u t. ''<html>'' @ t @ ''</html>''),
      no_report_text = (\<lambda>n. ''<p>'' @ n @ ''</p>''),
      strftime = (\<lambda>t. ''2026-01-01 00:00:00''),
      smtp_deliver = (\<lambda>t s d. False),
      desktop_show = (\<lambda>t s. True)\<rparr>"

definition fresh_world :: world where
  "fresh_world =
     \<lparr>text_files = (\<lambda>p. None), last_checks = (\<lambda>d. None), clock = 1000,
      requests_sent = (\<lambda>u. 0), trace = []\<rparr>"

definition empty_page_env :: env where
  "empty_page_env = example_env\<lparr>requests_get := (\<lambda>u k. Response [])\<rparr>"

definition offline_env :: env where
  "offline_env = example_env\<lparr>requests_get := (\<lambda>u k. RequestException)\<rparr>"

definition example_dir :: string where
  "example_dir = ''monitor_data/c984d06aafbecf6bc55569f964148ea3''"

definition baseline_world :: world where
  "baseline_world =
     fresh_world\<lparr>text_files := (\<lambda>p. None)((example_dir, ''content.txt'') \<mapsto> ''Hello''),
                  last_checks := (\<lambda>d. None)(example_dir \<mapsto> Check_info 1000 ''2026-01-01 00:00:00'')\<rparr>"

definition second_visit_world :: world where
  "second_visit_world = baseline_world\<lparr>clock := 1100, requests_sent := (\<lambda>u. 1)\<rparr>"

definition empty_baseline_world :: world where
  "empty_baseline_world =
     fresh_world\<lparr>text_files := (\<lambda>p. None)((example_dir, ''content.txt'') \<mapsto> [])\<rparr>"

definition down_site :: site where
  "down_site = example_site\<lparr>name := ''Down'', url := ''https://down.example''\<rparr>"

definition mixed_env :: env where
  \<comment> \<open>One host is unreachable, the other serves the changed page.\<close>
  "mixed_env =
     example_env
       \<lparr>md5_hexdigest :=
          (\<lambda>u. if u = ''https://down.example'' then ''0580d0ad1abad504113887be7b5999a8''
               else ''c984d06aafbecf6bc55569f964148ea3''),
        requests_get :=
          (\<lambda>u k. if u = ''https://down.example'' then RequestException
                 else Response ''<div id=content>Hello  World</div>'')\<rparr>"

section \<open>Whitespace normalization\<close>

lemma isspace_space: "isspace (CHR '' '')"
  by (simp add: isspace_def)

lemma collapse_ws_head:
  "collapse_ws s = x # xs \<Longrightarrow> isspace x \<Longrightarrow> x = CHR '' ''"
  by (cases s) (auto split: if_splits)

lemma tidy_collapse_ws: "tidy (collapse_ws s)"
proof (induction s rule: collapse_ws.induct)
  case 1
  show ?case by simp
next
  case (2 c cs)
  show ?case
  proof (cases "isspace c")
    case True
    let ?r = "dropWhile isspace cs"
    have ih: "tidy (collapse_ws ?r)" using 2(1) True by simp
    show ?thesis
    proof (cases "collapse_ws ?r")
      case Nil
      with True show ?thesis by (simp add: isspace_space)
    next
      case (Cons y ys)
      have "?r \<noteq> []"
      proof
        assume "?r = []"
        then have "collapse_ws ?r = []" by (simp only: collapse_ws.simps)
        with Cons show False by simp
      qed
      then have nsp: "\<not> isspace (hd ?r)" using hd_dropWhile by blast
      have "y = hd ?r"
        using Cons nsp \<open>?r \<noteq> []\<close> by (cases ?r) (auto split: if_splits)
      with nsp ih Cons True show ?thesis by (simp add: isspace_space)
    qed
  next
    case False
    have ih: "tidy (collapse_ws cs)" using 2(2) False by simp
    show ?thesis
    proof (cases "collapse_ws cs")
      case Nil
      with False show ?thesis by simp
    next
      case (Cons y ys)
      with False ih show ?thesis by simp
    qed
  qed
qed

lemma tidy_tl: "tidy (c # cs) \<Longrightarrow> tidy cs"
  by (cases cs) auto

lemma collapse_ws_tidy: "tidy s \<Longrightarrow> collapse_ws s = s"
proof (induction s rule: tidy.induct)
  case 1
  show ?case by simp
next
  case (2 c)
  then show ?case by (simp split: if_splits)
next
  case (3 c d cs)
  then show ?case by (auto split: if_splits)
qed

lemma tidy_prefix: "tidy (xs @ ys) \<Longrightarrow> tidy xs"
proof (induction xs rule: tidy.induct)
  case 1
  show ?case by simp
next
  case (2 c)
  then show ?case by (cases ys) (auto split: if_splits)
next
  case (3 c d cs)
  then show ?case by (auto split: if_splits)
qed

lemma tidy_dropWhile: "tidy s \<Longrightarrow> tidy (dropWhile P s)"
  by (induction s) (auto dest: tidy_tl)

lemma rstrip_prefix:
  "rev (dropWhile P (rev s)) @ rev (takeWhile P (rev s)) = s"
proof -
  have "rev (takeWhile P (rev s) @ dropWhile P (rev s)) = s"
    by simp
  then show ?thesis
    by (simp only: rev_append)
qed

lemma tidy_strip: "tidy s \<Longrightarrow> tidy (strip s)"
proof -
  assume "tidy s"
  then have t: "tidy (dropWhile isspace s)" by (rule tidy_dropWhile)
  let ?d = "dropWhile isspace s"
  have "tidy (rev (dropWhile isspace (rev ?d)) @ rev (takeWhile isspace (rev ?d)))"
    using t by (simp only: rstrip_prefix)
  then show ?thesis
    unfolding strip_def by (rule tidy_prefix)
qed

lemma dropWhile_rev_dropWhile:
  "dropWhile P (rev (dropWhile P (rev (dropWhile P s)))) = rev (dropWhile P (rev (dropWhile P s)))"
proof (cases "rev (dropWhile P (rev (dropWhile P s)))")
  case Nil
  then show ?thesis by (simp only: dropWhile.simps)
next
  case (Cons y ys)
  let ?d = "dropWhile P s"
  have "?d = (y # ys) @ rev (takeWhile P (rev ?d))"
    using rstrip_prefix [of P ?d] Cons by simp
  then have "hd ?d = y" and "?d \<noteq> []"
    by (metis append_Cons list.sel(1), metis append_Cons list.distinct(1))
  then have "\<not> P y" using hd_dropWhile by metis
  with Cons show ?thesis by simp
qed

lemma strip_strip: "strip (strip s) = strip s"
proof -
  let ?t = "rev (dropWhile isspace (rev (dropWhile isspace s)))"
  have a: "dropWhile isspace ?t = ?t" by (rule dropWhile_rev_dropWhile)
  have "dropWhile isspace (rev ?t) = rev ?t"
  proof (cases "dropWhile isspace (rev (dropWhile isspace s))")
    case Nil
    then show ?thesis by simp
  next
    case (Cons y ys)
    then have "\<not> isspace y" using hd_dropWhile
      by (metis list.distinct(1) list.sel(1))
    with Cons show ?thesis by simp
  qed
  with a show ?thesis by (simp add: strip_def)
qed

text \<open>
  C9. The whitespace normalization of the extractor is idempotent: normalizing a text
  that is already normalized returns it unchanged, for every text.
\<close>

theorem normalize_ws_idempotent: "normalize_ws (normalize_ws t) = normalize_ws t"
proof -
  have "tidy (normalize_ws t)"
    unfolding normalize_ws_def by (rule tidy_strip) (rule tidy_collapse_ws)
  then have "collapse_ws (normalize_ws t) = normalize_ws t"
    by (rule collapse_ws_tidy)
  then have "normalize_ws (normalize_ws t) = strip (normalize_ws t)"
    by (simp add: normalize_ws_def)
  also have "\<dots> = normalize_ws t"
    by (simp add: normalize_ws_def strip_strip)
  finally show ?thesis .
qed


section \<open>Frames of the basic operations\<close>

lemma log_event_simps:
  "text_files (log_event ev w) = text_files w"
  "last_checks (log_event ev w) = last_checks w"
  "clock (log_event ev w) = clock w"
  "requests_sent (log_event ev w) = requests_sent w"
  "trace (log_event ev w) = trace w @ [ev]"
  by (simp_all add: log_event_def)

lemma sleep_simps:
  "text_files (sleep d w) = text_files w"
  "last_checks (sleep d w) = last_checks w"
  "clock (sleep d w) = clock w + real d"
  "requests_sent (sleep d w) = requests_sent w"
  "trace (sleep d w) = trace w @ [Sleep d]"
  by (simp_all add: sleep_def)

lemma save_content_simps:
  "text_files (save_content c p w) = (text_files w)(p \<mapsto> c)"
  "last_checks (save_content c p w) = last_checks w"
  "clock (save_content c p w) = clock w"
  "requests_sent (save_content c p w) = requests_sent w"
  "trace (save_content c p w) = trace w"
  by (simp_all add: save_content_def run_file_ops_def save_steps_def)

lemma write_last_check_simps:
  "text_files (write_last_check e d w) = text_files w"
  "last_checks (write_last_check e d w) = (last_checks w)(d \<mapsto> Check_info (clock w) (strftime e (clock w)))"
  "clock (write_last_check e d w) = clock w"
  "requests_sent (write_last_check e d w) = requests_sent w"
  "trace (write_last_check e d w) = trace w"
  by (simp_all add: write_last_check_def)

lemmas world_simps = log_event_simps sleep_simps save_content_simps write_last_check_simps

lemma notifications_log_event:
  "notifications (log_event ev w) = (if is_notification ev then notifications w @ [ev] else notifications w)"
  by (simp add: notifications_def log_event_def)

lemma fetch_attempts_frame:
  "text_files (snd (fetch_attempts e u cfg a w)) = text_files w \<and>
   last_checks (snd (fetch_attempts e u cfg a w)) = last_checks w \<and>
   notifications (snd (fetch_attempts e u cfg a w)) = notifications w"
proof (induction e u cfg a w rule: fetch_attempts.induct)
  case (1 e u cfg attempt w)
  show ?case
  proof (cases "attempt < retry_count cfg")
    case False
    then show ?thesis by simp
  next
    case True
    show ?thesis
    proof (cases "requests_get e u (requests_sent w u)")
      case (Response body)
      with True show ?thesis
        by (simp add: world_simps notifications_def is_notification_def)
    next
      case RequestException
      show ?thesis
      proof (cases "attempt < retry_count cfg - 1")
        case False
        with True RequestException show ?thesis
          by (simp add: world_simps notifications_def is_notification_def)
      next
        case more: True
        from 1 [OF True refl RequestException more] True RequestException more
        show ?thesis
          by (simp add: world_simps notifications_def is_notification_def)
      qed
    qed
  qed
qed


lemma fetch_text_files:
  "fetch_website_content e u cfg w = (r, w1) \<Longrightarrow>
   text_files w1 = text_files w \<and> last_checks w1 = last_checks w \<and> notifications w1 = notifications w"
  using fetch_attempts_frame [of e u cfg 0 w] by (simp add: fetch_website_content_def)

lemma load_content_after_fetch:
  assumes "fetch_website_content e u cfg (log_event ev w) = (r, w1)"
  shows "load_content (d, ''content.txt'') (save_content html (d, ''raw.html'') w1) =
         load_content (d, ''content.txt'') w"
  using fetch_text_files [OF assms] by (simp add: load_content_def world_simps)

lemma check_no_content:
  assumes "fetch_website_content e (url s) cfg (log_event (Log_checking (name s) (url s)) w) = (r, w1)"
      and "r = None \<or> r = Some []"
  shows "check_website_changes e s cfg force w = (False, log_event (Log_no_content (name s)) w1)"
  using assms by (auto simp: check_website_changes_def Let_def)

lemma check_baseline:
  assumes f: "fetch_website_content e (url s) cfg (log_event (Log_checking (name s) (url s)) w) = (Some html, w1)"
      and h: "html \<noteq> []"
      and b: "load_content (get_site_data_path e cfg s, ''content.txt'') w = None \<or>
              load_content (get_site_data_path e cfg s, ''content.txt'') w = Some [] \<or> force"
  shows "check_website_changes e s cfg force w =
         (False,
          write_last_check e (get_site_data_path e cfg s)
            (save_content
               (extract_content e html (case selector s of None \<Rightarrow> ''body'' | Some sel \<Rightarrow> sel)
                  (ignore_patterns s))
               (get_site_data_path e cfg s, ''content.txt'')
               (log_event (Log_new_baseline (name s))
                  (save_content html (get_site_data_path e cfg s, ''raw.html'') w1))))"
  using h b unfolding check_website_changes_def Let_def f prod.case option.case
    load_content_after_fetch [OF f]
  by auto

lemma check_compare:
  assumes f: "fetch_website_content e (url s) cfg (log_event (Log_checking (name s) (url s)) w) = (Some html, w1)"
      and h: "html \<noteq> []"
      and b: "load_content (get_site_data_path e cfg s, ''content.txt'') w = Some prev"
      and p: "prev \<noteq> []"
  shows "check_website_changes e s cfg False w =
         (let site_dir = get_site_data_path e cfg s;
              extracted = extract_content e html
                  (case selector s of None \<Rightarrow> ''body'' | Some sel \<Rightarrow> sel) (ignore_patterns s);
              w3 = write_last_check e site_dir (save_content html (site_dir, ''raw.html'') w1)
          in case compute_diff e prev extracted of
               None \<Rightarrow> (False, log_event (Log_no_change (name s)) w3)
             | Some d \<Rightarrow>
                 if d = [] then (False, log_event (Log_no_change (name s)) w3)
                 else
                   (let w4 = save_content d (site_dir, ''diff.txt'')
                               (log_event (Log_change_detected (name s)) w3);
                        w5 = save_content
                               (format_diff_html e prev extracted (name s) (url s) (clock w4))
                               (site_dir, ''diff.html'') w4;
                        w6 = save_content extracted (site_dir, ''content.txt'') w5
                    in (True, snd (send_notification e s d cfg w6))))"
  using h b p unfolding check_website_changes_def Let_def f prod.case option.case
    load_content_after_fetch [OF f]
  by (auto split: option.splits)


lemma fetch_attempts_exhausted:
  assumes "\<forall>k < nat (retry_count cfg - a). requests_get e u (requests_sent w u + k) = RequestException"
  shows "fst (fetch_attempts e u cfg a w) = None \<and>
         trace (snd (fetch_attempts e u cfg a w)) =
           trace w @
           concat (replicate (nat (retry_count cfg - a) - 1)
                     [Http_get u, Log_fetch_retry u, Sleep (retry_delay cfg)]) @
           (if a < retry_count cfg then [Http_get u, Log_fetch_failed u] else []) \<and>
         clock (snd (fetch_attempts e u cfg a w)) =
           clock w + real ((nat (retry_count cfg - a) - 1) * retry_delay cfg) \<and>
         requests_sent (snd (fetch_attempts e u cfg a w)) u =
           requests_sent w u + nat (retry_count cfg - a)"
  using assms
proof (induction e u cfg a w rule: fetch_attempts.induct)
  case (1 e u cfg attempt w)
  show ?case
  proof (cases "attempt < retry_count cfg")
    case False
    then show ?thesis by simp
  next
    case True
    then have "0 < nat (retry_count cfg - attempt)" by simp
    with "1.prems" have fail: "requests_get e u (requests_sent w u) = RequestException"
      by (metis add.right_neutral)
    show ?thesis
    proof (cases "attempt < retry_count cfg - 1")
      case False
      with True have "nat (retry_count cfg - attempt) = 1" by simp
      with True False fail show ?thesis
        by (simp add: world_simps)
    next
      case more: True
      let ?w' = "sleep (retry_delay cfg) (log_event (Log_fetch_retry u)
                   (log_event (Http_get u)
                      (w\<lparr>requests_sent := (requests_sent w)(u := Suc (requests_sent w u))\<rparr>)))"
      have n: "nat (retry_count cfg - attempt) = Suc (nat (retry_count cfg - (attempt + 1)))"
        using more by simp
      have "\<forall>k < nat (retry_count cfg - (attempt + 1)).
              requests_get e u (requests_sent ?w' u + k) = RequestException"
      proof (intro allI impI)
        fix k assume "k < nat (retry_count cfg - (attempt + 1))"
        then have "Suc k < nat (retry_count cfg - attempt)" using n by simp
        with "1.prems" have "requests_get e u (requests_sent w u + Suc k) = RequestException"
          by blast
        then show "requests_get e u (requests_sent ?w' u + k) = RequestException"
          by (simp add: world_simps)
      qed
      from "1.IH" [OF True refl fail more this]
      have ih: "fst (fetch_attempts e u cfg (attempt + 1) ?w') = None"
        "trace (snd (fetch_attempts e u cfg (attempt + 1) ?w')) =
           trace ?w' @
           concat (replicate (nat (retry_count cfg - (attempt + 1)) - 1)
                     [Http_get u, Log_fetch_retry u, Sleep (retry_delay cfg)]) @
           [Http_get u, Log_fetch_failed u]"
        "clock (snd (fetch_attempts e u cfg (attempt + 1) ?w')) =
           clock ?w' + real ((nat (retry_count cfg - (attempt + 1)) - 1) * retry_delay cfg)"
        "requests_sent (snd (fetch_attempts e u cfg (attempt + 1) ?w')) u =
           requests_sent ?w' u + nat (retry_count cfg - (attempt + 1))"
        using more by simp_all
      have step: "fetch_attempts e u cfg attempt w = fetch_attempts e u cfg (attempt + 1) ?w'"
        using True more fail by (simp add: Let_def)
      have m: "nat (retry_count cfg - attempt) - 1 =
               Suc (nat (retry_count cfg - (attempt + 1)) - 1)"
        using more by simp
      have c: "real (Suc (nat (retry_count cfg - (attempt + 1)) - 1) * retry_delay cfg) =
               real (retry_delay cfg) +
               real ((nat (retry_count cfg - (attempt + 1)) - 1) * retry_delay cfg)"
        by simp
      show ?thesis
        unfolding step m ih c using True
        by (simp add: world_simps del: fetch_attempts.simps)
    qed
  qed
qed

section \<open>Lines and the differ\<close>

lemma restore_keep: "restore tag (map (\<lambda>line. ''  '' @ line) a) = a"
  by (induction a) (simp_all add: restore_def)

lemma restore_minus: "restore ''- '' (map (\<lambda>line. ''- '' @ line) a) = a"
  "restore ''+ '' (map (\<lambda>line. ''- '' @ line) a) = []"
  "restore ''+ '' (map (\<lambda>line. ''+ '' @ line) a) = a"
  "restore ''- '' (map (\<lambda>line. ''+ '' @ line) a) = []"
  by (induction a) (simp_all add: restore_def)

lemma restore_append: "restore tag (xs @ ys) = restore tag xs @ restore tag ys"
  by (simp add: restore_def)

lemma naive_compare_contract: "differ_contract naive_compare"
proof -
  have "restore ''- '' (naive_compare a b) = a \<and> restore ''+ '' (naive_compare a b) = b \<and>
        naive_compare a a = map (\<lambda>line. ''  '' @ line) a" for a b
  proof (cases "a = b")
    case True
    then show ?thesis
      by (simp only: naive_compare_def if_True restore_keep simp_thms)
  next
    case False
    then show ?thesis
      by (simp only: naive_compare_def if_False if_True restore_append restore_minus
            restore_keep append_Nil append_Nil2 simp_thms)
  qed
  then show ?thesis unfolding differ_contract_def by blast
qed

lemma startswith_two:
  "startswith line ''+ '' = (take 2 line = ''+ '')"
  "startswith line ''- '' = (take 2 line = ''- '')"
  by (simp_all add: startswith_def numeral_2_eq_2)

lemma no_changes_same:
  assumes "filter (\<lambda>line. startswith line ''+ '' \<or> startswith line ''- '') delta = []"
  shows "restore ''- '' delta = restore ''+ '' delta"
proof -
  have "\<forall>line \<in> set delta. take 2 line \<noteq> ''+ '' \<and> take 2 line \<noteq> ''- ''"
    using assms by (simp only: filter_empty_conv startswith_two) blast
  then have "filter (\<lambda>line. take 2 line = ''  '' \<or> take 2 line = ''- '') delta =
             filter (\<lambda>line. take 2 line = ''  '' \<or> take 2 line = ''+ '') delta"
    by (intro filter_cong refl) blast
  then show ?thesis by (simp add: restore_def)
qed

lemma unchanged_no_changes:
  "filter (\<lambda>line. startswith line ''+ '' \<or> startswith line ''- '') (map (\<lambda>line. ''  '' @ line) a) = []"
  by (induction a) (simp_all add: startswith_def)

lemma join_changes_nonempty:
  assumes "changes \<noteq> []" "\<forall>l \<in> set changes. l \<noteq> []"
  shows "join changes \<noteq> []"
  using assms by (cases changes rule: join.cases) auto

lemma compute_diff_None_iff:
  assumes "differ_contract (differ_compare e)"
  shows "compute_diff e a b = None \<longleftrightarrow> a = [] \<or> b = [] \<or> splitlines a = splitlines b"
proof (cases "a = [] \<or> b = []")
  case True
  then show ?thesis by (auto simp: compute_diff_def)
next
  case False
  let ?d = "differ_compare e (splitlines a) (splitlines b)"
  let ?c = "filter (\<lambda>line. startswith line ''+ '' \<or> startswith line ''- '') ?d"
  have r: "restore ''- '' ?d = splitlines a" "restore ''+ '' ?d = splitlines b"
    using assms by (simp_all add: differ_contract_def)
  have "?c = [] \<longleftrightarrow> splitlines a = splitlines b"
  proof
    assume "?c = []"
    from no_changes_same [OF this] r show "splitlines a = splitlines b" by simp
  next
    assume eq: "splitlines a = splitlines b"
    have "?d = map (\<lambda>line. ''  '' @ line) (splitlines b)"
      using assms unfolding eq by (simp add: differ_contract_def)
    then show "?c = []" by (simp only: unchanged_no_changes)
  qed
  with False show ?thesis by (simp add: compute_diff_def Let_def)
qed

lemma compute_diff_Some_nonempty:
  "compute_diff e a b = Some d \<Longrightarrow> d \<noteq> []"
proof -
  assume h: "compute_diff e a b = Some d"
  let ?c = "filter (\<lambda>line. startswith line ''+ '' \<or> startswith line ''- '')
              (differ_compare e (splitlines a) (splitlines b))"
  from h have c: "?c \<noteq> []" and d: "d = join ?c"
    by (auto simp: compute_diff_def Let_def split: if_splits)
  have "\<forall>l \<in> set ?c. l \<noteq> []" by (auto simp: startswith_def)
  from join_changes_nonempty [OF c this] d show ?thesis by simp
qed

lemma split_from_single:
  "\<forall>c \<in> set s. \<not> is_linebreak c \<Longrightarrow> split_from cur s = (if cur @ s = [] then [] else [cur @ s])"
proof (induction s arbitrary: cur)
  case Nil
  show ?case by simp
next
  case (Cons c cs)
  then have "\<not> is_linebreak c" by simp
  then have "c \<noteq> CHR 0x0D" by (auto simp: is_linebreak_def)
  with Cons \<open>\<not> is_linebreak c\<close> show ?case by simp
qed

lemma tidy_no_linebreak: "tidy s \<Longrightarrow> \<forall>c \<in> set s. \<not> is_linebreak c"
proof (induction s rule: tidy.induct)
  case 1
  show ?case by simp
next
  case (2 c)
  then show ?case by (auto simp: is_linebreak_def isspace_def split: if_splits)
next
  case (3 c d cs)
  then show ?case by (auto simp: is_linebreak_def isspace_def split: if_splits)
qed

lemma tidy_normalize_ws: "tidy (normalize_ws t)"
  unfolding normalize_ws_def by (rule tidy_strip) (rule tidy_collapse_ws)

lemma splitlines_normalize_ws:
  "splitlines (normalize_ws t) = (if normalize_ws t = [] then [] else [normalize_ws t])"
  using split_from_single [OF tidy_no_linebreak [OF tidy_normalize_ws], of "[]" t]
  by (simp add: splitlines_def)



lemma universal_newlines_id: "CHR 0x0D \<notin> set s \<Longrightarrow> universal_newlines s = s"
  by (induction s) auto

section \<open>The first check\<close>





lemmas example_defs = example_env_def example_site_def example_config_def fresh_world_def
  empty_page_env_def offline_env_def example_dir_def baseline_world_def second_visit_world_def
  empty_baseline_world_def


section \<open>A check that finds no change\<close>

text \<open>
  C10. On a check where a non-empty baseline exists and the computed diff is empty,
  \<^verbatim>\<open>check_website_changes\<close> returns \<^verbatim>\<open>False\<close> and changes only the raw page and the
  last-check record: the baseline, the last diff and the HTML report stay as they
  were, and no notification is sent.
\<close>

theorem unchanged_check_frame:
  assumes "load_content (get_site_data_path e cfg s, ''content.txt'') w = Some prev"
      and "prev \<noteq> []"
      and "fetch_website_content e (url s) cfg (log_event (Log_checking (name s) (url s)) w) =
             (Some html, w1)"
      and "html \<noteq> []"
      and "compute_diff e prev
             (extract_content e html (case selector s of None \<Rightarrow> ''body'' | Some sel \<Rightarrow> sel)
                (ignore_patterns s)) = None"
  shows "fst (check_website_changes e s cfg False w) = False \<and>
         text_files (snd (check_website_changes e s cfg False w)) =
           (text_files w)((get_site_data_path e cfg s, ''raw.html'') \<mapsto> html) \<and>
         last_checks (snd (check_website_changes e s cfg False w)) =
           (last_checks w)(get_site_data_path e cfg s \<mapsto>
              Check_info (clock w1) (strftime e (clock w1))) \<and>
         text_files (snd (check_website_changes e s cfg False w))
             (get_site_data_path e cfg s, ''content.txt'') =
           text_files w (get_site_data_path e cfg s, ''content.txt'') \<and>
         text_files (snd (check_website_changes e s cfg False w))
             (get_site_data_path e cfg s, ''diff.txt'') =
           text_files w (get_site_data_path e cfg s, ''diff.txt'') \<and>
         text_files (snd (check_website_changes e s cfg False w))
             (get_site_data_path e cfg s, ''diff.html'') =
           text_files w (get_site_data_path e cfg s, ''diff.html'') \<and>
         notifications (snd (check_website_changes e s cfg False w)) = notifications w"
proof -
  have n: "text_files w1 = text_files w" "last_checks w1 = last_checks w"
    "notifications w1 = notifications w"
    using fetch_text_files [OF assms(3)]
    by (simp_all add: notifications_def log_event_def is_notification_def)
  show ?thesis
    unfolding check_compare [OF assms(3) assms(4) assms(1) assms(2)] Let_def assms(5)
    using n by (simp add: world_simps notifications_def is_notification_def)
qed

lemma example_second_fetch:
  "fetch_website_content example_env (url example_site) example_config
     (log_event (Log_checking (name example_site) (url example_site)) baseline_world) =
   (Some ''<div id=content>Hello</div>'',
    log_event (Http_get ''https://example.com'')
      ((log_event (Log_checking ''Example'' ''https://example.com'') baseline_world)
         \<lparr>requests_sent := (\<lambda>u. 0)(''https://example.com'' := Suc 0)\<rparr>))"
  by (simp add: fetch_website_content_def example_defs log_event_def Let_def)

lemma example_extract_hello:
  "extract_content example_env ''<div id=content>Hello</div>''
     (case selector example_site of None \<Rightarrow> ''body'' | Some sel \<Rightarrow> sel)
     (ignore_patterns example_site) = ''Hello''"
  by (simp add: extract_content_def example_env_def normalize_ws_def strip_def isspace_def)

lemma example_dir_eq:
  "get_site_data_path example_env example_config example_site = example_dir"
  by (simp add: get_site_data_path_def example_defs)

theorem unchanged_check_frame_witness:
  "fst (check_website_changes example_env example_site example_config False baseline_world) = False \<and>
   text_files (snd (check_website_changes example_env example_site example_config False baseline_world)) =
     (text_files baseline_world)((example_dir, ''raw.html'') \<mapsto> ''<div id=content>Hello</div>'') \<and>
   text_files (snd (check_website_changes example_env example_site example_config False baseline_world))
     (example_dir, ''content.txt'') = Some ''Hello'' \<and>
   text_files (snd (check_website_changes example_env example_site example_config False baseline_world))
     (example_dir, ''diff.txt'') = None \<and>
   notifications (snd (check_website_changes example_env example_site example_config False baseline_world)) = []"
proof -
  have a: "load_content (get_site_data_path example_env example_config example_site, ''content.txt'')
             baseline_world = Some ''Hello''"
    by (simp add: load_content_def example_dir_eq) (simp add: example_defs)
  have p: "''Hello'' \<noteq> []" and h: "''<div id=content>Hello</div>'' \<noteq> []" by simp_all
  have d: "compute_diff example_env ''Hello''
             (extract_content example_env ''<div id=content>Hello</div>''
                (case selector example_site of None \<Rightarrow> ''body'' | Some sel \<Rightarrow> sel)
                (ignore_patterns example_site)) = None"
    unfolding example_extract_hello
    by (simp add: compute_diff_def example_env_def naive_compare_def startswith_def)
  show ?thesis
    using unchanged_check_frame [OF a p example_second_fetch h d]
    by (simp add: example_dir_eq) (simp add: example_defs notifications_def)
qed

section \<open>An empty baseline\<close>

lemma fetch_attempts_text_files_update:
  "fetch_attempts e u cfg a (w\<lparr>text_files := f\<rparr>) =
   (fst (fetch_attempts e u cfg a w), (snd (fetch_attempts e u cfg a w))\<lparr>text_files := f\<rparr>)"
proof (induction e u cfg a w rule: fetch_attempts.induct)
  case (1 e u cfg attempt w)
  show ?case
  proof (cases "attempt < retry_count cfg")
    case False
    then show ?thesis by simp
  next
    case True
    show ?thesis
    proof (cases "requests_get e u (requests_sent w u)")
      case (Response body)
      with True show ?thesis by (simp add: log_event_def)
    next
      case RequestException
      show ?thesis
      proof (cases "attempt < retry_count cfg - 1")
        case False
        with True RequestException show ?thesis by (simp add: log_event_def)
      next
        case more: True
        let ?v = "w\<lparr>requests_sent := (requests_sent w)(u := Suc (requests_sent w u))\<rparr>"
        have eq: "sleep (retry_delay cfg) (log_event (Log_fetch_retry u) (log_event (Http_get u)
                    (w\<lparr>text_files := f, requests_sent := (requests_sent w)(u := Suc (requests_sent w u))\<rparr>))) =
                  (sleep (retry_delay cfg) (log_event (Log_fetch_retry u) (log_event (Http_get u) ?v)))
                    \<lparr>text_files := f\<rparr>"
          by (simp add: sleep_def log_event_def)
        have l: "fetch_attempts e u cfg attempt (w\<lparr>text_files := f\<rparr>) =
                 fetch_attempts e u cfg (attempt + 1)
                   ((sleep (retry_delay cfg) (log_event (Log_fetch_retry u) (log_event (Http_get u) ?v)))
                    \<lparr>text_files := f\<rparr>)"
          using True RequestException more
          by (subst fetch_attempts.simps) (simp add: Let_def eq del: fetch_attempts.simps)
        have r: "fetch_attempts e u cfg attempt w =
                 fetch_attempts e u cfg (attempt + 1)
                   (sleep (retry_delay cfg) (log_event (Log_fetch_retry u) (log_event (Http_get u) ?v)))"
          using True RequestException more
          by (subst fetch_attempts.simps) (simp add: Let_def del: fetch_attempts.simps)
        show ?thesis
          unfolding l r
          using "1.IH" [OF True refl RequestException more] .
      qed
    qed
  qed
qed

text \<open>
  C4, as the code has it. \<^verbatim>\<open>load_content\<close> tells a missing content file from an
  empty one, but \<^verbatim>\<open>check_website_changes\<close> does not: with an empty stored baseline
  the check establishes a new baseline, with the same result and the same final state
  as for a target that was never checked. No diff is computed.
\<close>

theorem empty_baseline_like_absent:
  assumes "text_files w (get_site_data_path e cfg s, ''content.txt'') = Some []"
      and "fetch_website_content e (url s) cfg (log_event (Log_checking (name s) (url s)) w) =
             (Some html, w1)"
      and "html \<noteq> []"
  shows "load_content (get_site_data_path e cfg s, ''content.txt'') w = Some [] \<and>
         load_content (get_site_data_path e cfg s, ''content.txt'')
           (w\<lparr>text_files := (text_files w)((get_site_data_path e cfg s, ''content.txt'') := None)\<rparr>) = None \<and>
         check_website_changes e s cfg False w =
           check_website_changes e s cfg False
             (w\<lparr>text_files := (text_files w)((get_site_data_path e cfg s, ''content.txt'') := None)\<rparr>) \<and>
         fst (check_website_changes e s cfg False w) = False \<and>
         trace (snd (check_website_changes e s cfg False w)) = trace w1 @ [Log_new_baseline (name s)] \<and>
         text_files (snd (check_website_changes e s cfg False w))
             (get_site_data_path e cfg s, ''content.txt'') =
           Some (extract_content e html (case selector s of None \<Rightarrow> ''body'' | Some sel \<Rightarrow> sel)
                   (ignore_patterns s))"
proof -
  let ?p = "(get_site_data_path e cfg s, ''content.txt'')"
  let ?f = "(text_files w)(?p := None)"
  let ?ev = "Log_checking (name s) (url s)"
  have l1: "load_content ?p w = Some []"
    using assms(1) by (simp add: load_content_def)
  have l2: "load_content ?p (w\<lparr>text_files := ?f\<rparr>) = None"
    by (simp add: load_content_def)
  have t: "text_files w1 = text_files w"
    using fetch_text_files [OF assms(2)] by (simp add: log_event_def)
  have "log_event ?ev (w\<lparr>text_files := ?f\<rparr>) = (log_event ?ev w)\<lparr>text_files := ?f\<rparr>"
    by (simp add: log_event_def)
  then have f2: "fetch_website_content e (url s) cfg (log_event ?ev (w\<lparr>text_files := ?f\<rparr>)) =
                 (Some html, w1\<lparr>text_files := ?f\<rparr>)"
    using assms(2) fetch_attempts_text_files_update [where e = e and u = "url s" and cfg = cfg and a = 0
        and w = "log_event ?ev w" and f = ?f]
    by (simp add: fetch_website_content_def del: fetch_attempts.simps)
  have c1: "check_website_changes e s cfg False w =
         (False,
          write_last_check e (get_site_data_path e cfg s)
            (save_content
               (extract_content e html (case selector s of None \<Rightarrow> ''body'' | Some sel \<Rightarrow> sel)
                  (ignore_patterns s))
               ?p
               (log_event (Log_new_baseline (name s))
                  (save_content html (get_site_data_path e cfg s, ''raw.html'') w1))))"
    using check_baseline [OF assms(2) assms(3), of False] l1 by blast
  have c2: "check_website_changes e s cfg False (w\<lparr>text_files := ?f\<rparr>) =
         (False,
          write_last_check e (get_site_data_path e cfg s)
            (save_content
               (extract_content e html (case selector s of None \<Rightarrow> ''body'' | Some sel \<Rightarrow> sel)
                  (ignore_patterns s))
               ?p
               (log_event (Log_new_baseline (name s))
                  (save_content html (get_site_data_path e cfg s, ''raw.html'')
                     (w1\<lparr>text_files := ?f\<rparr>)))))"
    using check_baseline [OF f2 assms(3), of False] l2 by blast
  have same: "check_website_changes e s cfg False w =
              check_website_changes e s cfg False (w\<lparr>text_files := ?f\<rparr>)"
    unfolding c1 c2
    by (simp add: write_last_check_def save_content_def run_file_ops_def save_steps_def
          log_event_def t fun_upd_twist)
  have rest: "fst (check_website_changes e s cfg False w) = False \<and>
         trace (snd (check_website_changes e s cfg False w)) = trace w1 @ [Log_new_baseline (name s)] \<and>
         text_files (snd (check_website_changes e s cfg False w)) ?p =
           Some (extract_content e html (case selector s of None \<Rightarrow> ''body'' | Some sel \<Rightarrow> sel)
                   (ignore_patterns s))"
    unfolding c1 by (simp add: world_simps)
  from l1 l2 same rest show ?thesis by blast
qed

theorem empty_baseline_like_absent_witness:
  "load_content (example_dir, ''content.txt'') empty_baseline_world = Some [] \<and>
   check_website_changes example_env example_site example_config False empty_baseline_world =
     check_website_changes example_env example_site example_config False
       (empty_baseline_world\<lparr>text_files := (text_files empty_baseline_world)((example_dir, ''content.txt'') := None)\<rparr>) \<and>
   text_files (snd (check_website_changes example_env example_site example_config False empty_baseline_world))
     (example_dir, ''content.txt'') = Some ''Hello''"
proof -
  have a: "text_files empty_baseline_world
             (get_site_data_path example_env example_config example_site, ''content.txt'') = Some []"
    by (simp add: example_dir_eq) (simp add: example_defs)
  have h: "''<div id=content>Hello</div>'' \<noteq> []" by simp
  have f: "fetch_website_content example_env (url example_site) example_config
             (log_event (Log_checking (name example_site) (url example_site)) empty_baseline_world) =
           (Some ''<div id=content>Hello</div>'',
            log_event (Http_get ''https://example.com'')
              ((log_event (Log_checking ''Example'' ''https://example.com'') empty_baseline_world)
                 \<lparr>requests_sent := (\<lambda>u. 0)(''https://example.com'' := Suc 0)\<rparr>))"
    by (simp add: fetch_website_content_def example_defs log_event_def Let_def)
  show ?thesis
    using empty_baseline_like_absent [OF a f h]
    unfolding example_extract_hello example_dir_eq
    by blast
qed

text \<open>
  The claim C4 as stated fails: with the empty text stored as the baseline, the next
  check logs that it creates a new baseline, and neither of the messages of the diff
  path.
\<close>

theorem empty_baseline_counterexample:
  "load_content (example_dir, ''content.txt'') empty_baseline_world = Some [] \<and>
   fst (check_website_changes example_env example_site example_config False empty_baseline_world) = False \<and>
   trace (snd (check_website_changes example_env example_site example_config False empty_baseline_world)) =
     [Log_checking ''Example'' ''https://example.com'', Http_get ''https://example.com'',
      Log_new_baseline ''Example'']"
  by (simp add: check_website_changes_def fetch_website_content_def example_defs
        log_event_def Let_def load_content_def get_site_data_path_def save_content_def
        run_file_ops_def save_steps_def write_last_check_def)

section \<open>The differencer\<close>

text \<open>
  C2, as the code has it. \<^verbatim>\<open>compute_diff(t, t)\<close> is empty for every text. For two texts
  the result is non-empty exactly when neither text is empty and their lines differ;
  for two normalized texts that is when neither is empty and they differ.
\<close>

theorem compute_diff_empty_iff:
  assumes "differ_contract (differ_compare e)"
  shows "compute_diff e t t = None \<and>
         (compute_diff e a b \<noteq> None \<longleftrightarrow> a \<noteq> [] \<and> b \<noteq> [] \<and> splitlines a \<noteq> splitlines b) \<and>
         (compute_diff e (normalize_ws x) (normalize_ws y) \<noteq> None \<longleftrightarrow>
            normalize_ws x \<noteq> [] \<and> normalize_ws y \<noteq> [] \<and> normalize_ws x \<noteq> normalize_ws y)"
proof -
  have 1: "compute_diff e t t = None"
    using compute_diff_None_iff [OF assms, of t t] by simp
  have 2: "compute_diff e a b \<noteq> None \<longleftrightarrow> a \<noteq> [] \<and> b \<noteq> [] \<and> splitlines a \<noteq> splitlines b"
    using compute_diff_None_iff [OF assms, of a b] by auto
  have 3: "compute_diff e (normalize_ws x) (normalize_ws y) \<noteq> None \<longleftrightarrow>
            normalize_ws x \<noteq> [] \<and> normalize_ws y \<noteq> [] \<and> normalize_ws x \<noteq> normalize_ws y"
    using compute_diff_None_iff [OF assms, of "normalize_ws x" "normalize_ws y"]
    by (auto simp: splitlines_normalize_ws split: if_splits)
  from 1 2 3 show ?thesis by blast
qed

theorem compute_diff_empty_iff_witness:
  "compute_diff example_env ''Hello'' ''Hello'' = None \<and>
   compute_diff example_env ''Hello'' ''Hello World'' \<noteq> None"
proof -
  have c: "differ_contract (differ_compare example_env)"
    by (simp add: example_env_def naive_compare_contract)
  have s: "splitlines ''Hello'' \<noteq> splitlines ''Hello World''"
    by (simp add: splitlines_def is_linebreak_def)
  show ?thesis
    using compute_diff_empty_iff [OF c, of "''Hello''" "''Hello''" "''Hello World''"] s
    by simp
qed

text \<open>
  The claim C2 as stated fails in two ways: an empty text against a non-empty one gives
  no change set, and so do two different texts with the same lines.
\<close>

theorem compute_diff_counterexample:
  "compute_diff example_env [] ''x'' = None \<and> [] \<noteq> ''x'' \<and>
   compute_diff example_env ''a'' [CHR ''a'', CHR 0x0A] = None \<and> ''a'' \<noteq> [CHR ''a'', CHR 0x0A]"
  by (simp add: compute_diff_def example_env_def naive_compare_def splitlines_def is_linebreak_def
        startswith_def)

section \<open>Saving and loading\<close>

text \<open>
  C3, as the code has it. \<^verbatim>\<open>save_content\<close> writes to the destination itself: opening
  the file empties it, then the content is written. Once the save is complete, a load
  of that path returns the content written (as text mode reads it back, that is the
  content itself when it has no carriage return), and no other path has changed.
  Between the two steps the destination is an empty file.
\<close>

theorem save_then_load:
  "load_content p (save_content c p w) = Some (universal_newlines c) \<and>
   (CHR 0x0D \<notin> set c \<longrightarrow> load_content p (save_content c p w) = Some c) \<and>
   (q \<noteq> p \<longrightarrow> load_content q (save_content c p w) = load_content q w) \<and>
   map file_op_path (save_steps c p) = [p, p] \<and>
   load_content p (run_file_ops (take 1 (save_steps c p)) w) = Some []"
  by (simp add: load_content_def save_content_simps universal_newlines_id)
     (simp add: save_steps_def run_file_ops_def)

theorem save_then_load_witness:
  "load_content (example_dir, ''content.txt'')
     (save_content ''Hello World'' (example_dir, ''content.txt'') baseline_world) = Some ''Hello World'' \<and>
   load_content (example_dir, ''raw.html'')
     (save_content ''Hello World'' (example_dir, ''content.txt'') baseline_world) =
     load_content (example_dir, ''raw.html'') baseline_world"
  using save_then_load [of "(example_dir, ''content.txt'')" "''Hello World''" baseline_world
      "(example_dir, ''raw.html'')"]
  by simp

text \<open>
  The claim C3 as stated fails: no step of the save goes to a temporary location, and
  after its first step a reader of the destination finds neither the old record nor
  the new one.
\<close>

theorem save_not_atomic_counterexample:
  "map file_op_path (save_steps ''Hello World'' (example_dir, ''content.txt'')) =
     [(example_dir, ''content.txt''), (example_dir, ''content.txt'')] \<and>
   load_content (example_dir, ''content.txt'') baseline_world = Some ''Hello'' \<and>
   load_content (example_dir, ''content.txt'')
     (run_file_ops (take 1 (save_steps ''Hello World'' (example_dir, ''content.txt''))) baseline_world) =
     Some []"
  by (simp add: save_steps_def run_file_ops_def load_content_def baseline_world_def fresh_world_def)

section \<open>A detected change\<close>


lemma send_notification_notifications:
  "\<exists>es. trace (snd (send_notification e s d cfg w)) = trace w @ es"
  by (simp add: send_notification_def send_email_notification_def send_desktop_notification_def
        Let_def world_simps split: prod.splits)




section \<open>Retries of the fetcher\<close>

lemma fetch_attempts_shape:
  "a < retry_count cfg \<Longrightarrow>
   \<exists>j < nat (retry_count cfg - a).
     trace (snd (fetch_attempts e u cfg a w)) =
       trace w @
       concat (replicate j [Http_get u, Log_fetch_retry u, Sleep (retry_delay cfg)]) @
       Http_get u #
       (case fst (fetch_attempts e u cfg a w) of None \<Rightarrow> [Log_fetch_failed u] | Some page \<Rightarrow> [])"
proof (induction e u cfg a w rule: fetch_attempts.induct)
  case (1 e u cfg attempt w)
  have True: "attempt < retry_count cfg" by (rule "1.prems")
  then have pos: "0 < nat (retry_count cfg - attempt)" by simp
  show ?case
  proof (cases "requests_get e u (requests_sent w u)")
    case (Response body)
    with True have "trace (snd (fetch_attempts e u cfg attempt w)) =
        trace w @ concat (replicate 0 [Http_get u, Log_fetch_retry u, Sleep (retry_delay cfg)]) @
        Http_get u #
        (case fst (fetch_attempts e u cfg attempt w) of None \<Rightarrow> [Log_fetch_failed u] | Some page \<Rightarrow> [])"
      by (simp add: world_simps)
    with pos show ?thesis by blast
  next
    case RequestException
    show ?thesis
    proof (cases "attempt < retry_count cfg - 1")
      case False
      with True RequestException have "trace (snd (fetch_attempts e u cfg attempt w)) =
          trace w @ concat (replicate 0 [Http_get u, Log_fetch_retry u, Sleep (retry_delay cfg)]) @
          Http_get u #
          (case fst (fetch_attempts e u cfg attempt w) of None \<Rightarrow> [Log_fetch_failed u] | Some page \<Rightarrow> [])"
        by (simp add: world_simps)
      with pos show ?thesis by blast
    next
      case more: True
      let ?v = "sleep (retry_delay cfg) (log_event (Log_fetch_retry u) (log_event (Http_get u)
                  (w\<lparr>requests_sent := (requests_sent w)(u := Suc (requests_sent w u))\<rparr>)))"
      have step: "fetch_attempts e u cfg attempt w = fetch_attempts e u cfg (attempt + 1) ?v"
        using True RequestException more
        by (subst fetch_attempts.simps) (simp add: Let_def del: fetch_attempts.simps)
      have next_ok: "attempt + 1 < retry_count cfg" using more by simp
      from "1.IH" [OF True refl RequestException more next_ok]
      obtain j where j: "j < nat (retry_count cfg - (attempt + 1))"
        and t: "trace (snd (fetch_attempts e u cfg (attempt + 1) ?v)) =
                trace ?v @
                concat (replicate j [Http_get u, Log_fetch_retry u, Sleep (retry_delay cfg)]) @
                Http_get u #
                (case fst (fetch_attempts e u cfg (attempt + 1) ?v) of
                   None \<Rightarrow> [Log_fetch_failed u] | Some page \<Rightarrow> [])"
        by blast
      have "Suc j < nat (retry_count cfg - attempt)" using j more by simp
      moreover have "trace (snd (fetch_attempts e u cfg attempt w)) =
          trace w @
          concat (replicate (Suc j) [Http_get u, Log_fetch_retry u, Sleep (retry_delay cfg)]) @
          Http_get u #
          (case fst (fetch_attempts e u cfg attempt w) of None \<Rightarrow> [Log_fetch_failed u] | Some page \<Rightarrow> [])"
        unfolding step t by (simp add: world_simps del: fetch_attempts.simps)
      ultimately show ?thesis by blast
    qed
  qed
qed

text \<open>
  C7. The fetcher makes at most \<^verbatim>\<open>retry_count\<close> requests, sleeps the same
  \<^verbatim>\<open>retry_delay\<close> between two consecutive requests and not after the last one. When
  every request fails it returns \<^verbatim>\<open>None\<close>; \<^verbatim>\<open>check_website_changes\<close> then returns
  \<^verbatim>\<open>False\<close>, having written no file and sent no notification.
\<close>

theorem fetch_retries_fixed_delay:
  "(0 < retry_count cfg \<longrightarrow>
      (\<exists>j < nat (retry_count cfg).
         trace (snd (fetch_website_content e u cfg w)) =
           trace w @
           concat (replicate j [Http_get u, Log_fetch_retry u, Sleep (retry_delay cfg)]) @
           Http_get u #
           (case fst (fetch_website_content e u cfg w) of
              None \<Rightarrow> [Log_fetch_failed u] | Some page \<Rightarrow> []))) \<and>
   (retry_count cfg \<le> 0 \<longrightarrow> fetch_website_content e u cfg w = (None, w)) \<and>
   ((\<forall>k < nat (retry_count cfg). requests_get e u (requests_sent w u + k) = RequestException) \<longrightarrow>
      fst (fetch_website_content e u cfg w) = None \<and>
      trace (snd (fetch_website_content e u cfg w)) =
        trace w @
        concat (replicate (nat (retry_count cfg) - 1)
                  [Http_get u, Log_fetch_retry u, Sleep (retry_delay cfg)]) @
        (if 0 < retry_count cfg then [Http_get u, Log_fetch_failed u] else []) \<and>
      clock (snd (fetch_website_content e u cfg w)) =
        clock w + real ((nat (retry_count cfg) - 1) * retry_delay cfg)) \<and>
   ((\<forall>k < nat (retry_count cfg).
        requests_get e (url s) (requests_sent w (url s) + k) = RequestException) \<longrightarrow>
      fst (check_website_changes e s cfg force w) = False \<and>
      text_files (snd (check_website_changes e s cfg force w)) = text_files w \<and>
      last_checks (snd (check_website_changes e s cfg force w)) = last_checks w \<and>
      notifications (snd (check_website_changes e s cfg force w)) = notifications w \<and>
      last (trace (snd (check_website_changes e s cfg force w))) = Log_no_content (name s))"
proof -
  have 1: "0 < retry_count cfg \<longrightarrow>
      (\<exists>j < nat (retry_count cfg).
         trace (snd (fetch_website_content e u cfg w)) =
           trace w @
           concat (replicate j [Http_get u, Log_fetch_retry u, Sleep (retry_delay cfg)]) @
           Http_get u #
           (case fst (fetch_website_content e u cfg w) of
              None \<Rightarrow> [Log_fetch_failed u] | Some page \<Rightarrow> []))"
    using fetch_attempts_shape [of 0 cfg e u w]
    by (simp add: fetch_website_content_def del: fetch_attempts.simps)
  have 2: "retry_count cfg \<le> 0 \<longrightarrow> fetch_website_content e u cfg w = (None, w)"
    by (simp add: fetch_website_content_def)
  have 3: "(\<forall>k < nat (retry_count cfg). requests_get e u (requests_sent w u + k) = RequestException) \<longrightarrow>
      fst (fetch_website_content e u cfg w) = None \<and>
      trace (snd (fetch_website_content e u cfg w)) =
        trace w @
        concat (replicate (nat (retry_count cfg) - 1)
                  [Http_get u, Log_fetch_retry u, Sleep (retry_delay cfg)]) @
        (if 0 < retry_count cfg then [Http_get u, Log_fetch_failed u] else []) \<and>
      clock (snd (fetch_website_content e u cfg w)) =
        clock w + real ((nat (retry_count cfg) - 1) * retry_delay cfg)"
    using fetch_attempts_exhausted [of cfg 0 e u w]
    by (simp add: fetch_website_content_def del: fetch_attempts.simps)
  have 4: "(\<forall>k < nat (retry_count cfg).
        requests_get e (url s) (requests_sent w (url s) + k) = RequestException) \<longrightarrow>
      fst (check_website_changes e s cfg force w) = False \<and>
      text_files (snd (check_website_changes e s cfg force w)) = text_files w \<and>
      last_checks (snd (check_website_changes e s cfg force w)) = last_checks w \<and>
      notifications (snd (check_website_changes e s cfg force w)) = notifications w \<and>
      last (trace (snd (check_website_changes e s cfg force w))) = Log_no_content (name s)"
  proof
    let ?w0 = "log_event (Log_checking (name s) (url s)) w"
    assume "\<forall>k < nat (retry_count cfg).
        requests_get e (url s) (requests_sent w (url s) + k) = RequestException"
    then have "\<forall>k < nat (retry_count cfg - 0).
        requests_get e (url s) (requests_sent ?w0 (url s) + k) = RequestException"
      by (simp add: world_simps)
    from fetch_attempts_exhausted [OF this]
    have none: "fst (fetch_website_content e (url s) cfg ?w0) = None"
      by (simp add: fetch_website_content_def del: fetch_attempts.simps)
    obtain w1 where f: "fetch_website_content e (url s) cfg ?w0 = (None, w1)"
      using none by (cases "fetch_website_content e (url s) cfg ?w0") simp
    have fr: "text_files w1 = text_files w" "last_checks w1 = last_checks w"
      "notifications w1 = notifications w"
      using fetch_text_files [OF f]
      by (simp_all add: notifications_def log_event_def is_notification_def)
    show "fst (check_website_changes e s cfg force w) = False \<and>
      text_files (snd (check_website_changes e s cfg force w)) = text_files w \<and>
      last_checks (snd (check_website_changes e s cfg force w)) = last_checks w \<and>
      notifications (snd (check_website_changes e s cfg force w)) = notifications w \<and>
      last (trace (snd (check_website_changes e s cfg force w))) = Log_no_content (name s)"
      unfolding check_no_content [OF f disjI1 [OF refl]]
      using fr by (simp add: world_simps notifications_def is_notification_def)
  qed
  from 1 2 3 4 show ?thesis by blast
qed

theorem fetch_retries_fixed_delay_witness:
  "fetch_website_content offline_env ''https://example.com'' example_config fresh_world =
     (None,
      fresh_world
        \<lparr>clock := 1010,
         requests_sent := (\<lambda>u. 0)(''https://example.com'' := 3),
         trace := [Http_get ''https://example.com'', Log_fetch_retry ''https://example.com'', Sleep 5,
                   Http_get ''https://example.com'', Log_fetch_retry ''https://example.com'', Sleep 5,
                   Http_get ''https://example.com'', Log_fetch_failed ''https://example.com'']\<rparr>) \<and>
   fst (check_website_changes offline_env example_site example_config False fresh_world) = False \<and>
   text_files (snd (check_website_changes offline_env example_site example_config False fresh_world)) =
     text_files fresh_world"
proof -
  have h: "\<forall>k < nat (retry_count example_config).
             requests_get offline_env (url example_site)
               (requests_sent fresh_world (url example_site) + k) = RequestException"
    by (simp add: example_defs)
  have f: "fetch_website_content offline_env ''https://example.com'' example_config fresh_world =
     (None,
      fresh_world
        \<lparr>clock := 1010,
         requests_sent := (\<lambda>u. 0)(''https://example.com'' := 3),
         trace := [Http_get ''https://example.com'', Log_fetch_retry ''https://example.com'', Sleep 5,
                   Http_get ''https://example.com'', Log_fetch_retry ''https://example.com'', Sleep 5,
                   Http_get ''https://example.com'', Log_fetch_failed ''https://example.com'']\<rparr>)"
    by (simp add: fetch_website_content_def example_defs log_event_def sleep_def Let_def
          numeral_3_eq_3)
  show ?thesis
    using fetch_retries_fixed_delay [of example_config offline_env "url example_site" fresh_world
        example_site False] h f
    by simp
qed

section \<open>The scheduler of the daemon\<close>

lemma fetch_attempts_trace:
  "\<exists>es. trace (snd (fetch_attempts e u cfg a w)) = trace w @ es"
proof (cases "a < retry_count cfg")
  case True
  from fetch_attempts_shape [OF True, of e u w] show ?thesis by blast
next
  case False
  then show ?thesis by simp
qed

lemma send_notification_trace:
  "\<exists>es. trace (snd (send_notification e s d cfg w)) = trace w @ es"
  by (simp add: send_notification_def send_email_notification_def send_desktop_notification_def
        Let_def world_simps split: prod.splits)

lemma check_trace:
  "\<exists>es. trace (snd (check_website_changes e s cfg False w)) =
         trace w @ Log_checking (name s) (url s) # es"
proof -
  let ?ev = "Log_checking (name s) (url s)"
  let ?dir = "get_site_data_path e cfg s"
  obtain r w1 where f: "fetch_website_content e (url s) cfg (log_event ?ev w) = (r, w1)"
    by (cases "fetch_website_content e (url s) cfg (log_event ?ev w)")
  obtain es where "trace w1 = trace (log_event ?ev w) @ es"
    using fetch_attempts_trace [of e "url s" cfg 0 "log_event ?ev w"] f
    by (auto simp: fetch_website_content_def simp del: fetch_attempts.simps)
  then have t1: "trace w1 = trace w @ ?ev # es" by (simp add: world_simps)
  show ?thesis
  proof (cases "r = None \<or> r = Some []")
    case True
    show ?thesis
      unfolding check_no_content [OF f True] using t1 by (simp add: world_simps)
  next
    case False
    then obtain html where r: "r = Some html" and h: "html \<noteq> []" by auto
    note f' = f [unfolded r]
    show ?thesis
    proof (cases "load_content (?dir, ''content.txt'') w = None \<or>
                  load_content (?dir, ''content.txt'') w = Some []")
      case True
      then have "load_content (?dir, ''content.txt'') w = None \<or>
                 load_content (?dir, ''content.txt'') w = Some [] \<or> False" by blast
      from check_baseline [OF f' h this] show ?thesis
        using t1 by (simp add: world_simps)
    next
      case False
      then obtain prev where p: "load_content (?dir, ''content.txt'') w = Some prev"
        and pn: "prev \<noteq> []" by auto
      let ?x = "extract_content e html (case selector s of None \<Rightarrow> ''body'' | Some sel \<Rightarrow> sel)
                  (ignore_patterns s)"
      show ?thesis
      proof (cases "compute_diff e prev ?x")
        case None
        show ?thesis
          unfolding check_compare [OF f' h p pn] Let_def None
          using t1 by (simp add: world_simps)
      next
        case (Some d)
        then have dn: "d \<noteq> []" by (rule compute_diff_Some_nonempty)
        let ?w6 = "save_content ?x (?dir, ''content.txt'')
                (save_content
                   (format_diff_html e prev ?x (name s) (url s)
                      (clock (write_last_check e ?dir (save_content html (?dir, ''raw.html'') w1))))
                   (?dir, ''diff.html'')
                   (save_content d (?dir, ''diff.txt'')
                      (log_event (Log_change_detected (name s))
                         (write_last_check e ?dir (save_content html (?dir, ''raw.html'') w1)))))"
        obtain es' where n: "trace (snd (send_notification e s d cfg ?w6)) = trace ?w6 @ es'"
          using send_notification_trace by blast
        have "check_website_changes e s cfg False w = (True, snd (send_notification e s d cfg ?w6))"
          unfolding check_compare [OF f' h p pn] Let_def Some
          using dn by (simp add: world_simps)
        then show ?thesis
          using n t1 by (simp add: world_simps)
      qed
    qed
  qed
qed

text \<open>
  What one visit of the daemon does, as \<^verbatim>\<open>run_daemon\<close> computes it: an active target is
  checked exactly when \<open>now - last_check_time \<ge> effective_interval\<close>, and an inactive
  target is never checked.
\<close>

lemma daemon_visit_due:
  "(Log_checking (name s) (url s) \<in>
      set (drop (length (trace w)) (trace (daemon_visit e cfg now s w)))) =
     (active s \<and> real_of_int (effective_interval cfg s) \<le> now - last_check_time e cfg s w) \<and>
   (active s \<and> real_of_int (effective_interval cfg s) \<le> now - last_check_time e cfg s w \<longrightarrow>
      daemon_visit e cfg now s w = snd (check_website_changes e s cfg False w)) \<and>
   (\<not> (active s \<and> real_of_int (effective_interval cfg s) \<le> now - last_check_time e cfg s w) \<longrightarrow>
      daemon_visit e cfg now s w = w) \<and>
   (site_check_interval s = Some i \<and> i \<noteq> 0 \<longrightarrow> effective_interval cfg s = i) \<and>
   (site_check_interval s = None \<or> site_check_interval s = Some 0 \<longrightarrow>
      effective_interval cfg s = check_interval cfg) \<and>
   (last_checks w (get_site_data_path e cfg s) = Some (Check_info t d) \<longrightarrow>
      last_check_time e cfg s w = t) \<and>
   (last_checks w (get_site_data_path e cfg s) = None \<or>
    last_checks w (get_site_data_path e cfg s) = Some Unparsable \<longrightarrow>
      last_check_time e cfg s w = 0)"
proof -
  let ?due = "active s \<and> real_of_int (effective_interval cfg s) \<le> now - last_check_time e cfg s w"
  obtain es where t: "trace (snd (check_website_changes e s cfg False w)) =
                      trace w @ Log_checking (name s) (url s) # es"
    using check_trace by blast
  have 2: "?due \<longrightarrow> daemon_visit e cfg now s w = snd (check_website_changes e s cfg False w)"
    by (simp add: daemon_visit_def)
  have 3: "\<not> ?due \<longrightarrow> daemon_visit e cfg now s w = w"
    by (auto simp: daemon_visit_def)
  have 1: "(Log_checking (name s) (url s) \<in>
      set (drop (length (trace w)) (trace (daemon_visit e cfg now s w)))) = ?due"
  proof (cases ?due)
    case True
    with 2 t show ?thesis by simp
  next
    case False
    with 3 show ?thesis by simp
  qed
  have 4: "site_check_interval s = Some i \<and> i \<noteq> 0 \<longrightarrow> effective_interval cfg s = i"
    and 5: "site_check_interval s = None \<or> site_check_interval s = Some 0 \<longrightarrow>
      effective_interval cfg s = check_interval cfg"
    by (auto simp: effective_interval_def)
  have 6: "last_checks w (get_site_data_path e cfg s) = Some (Check_info t d) \<longrightarrow>
      last_check_time e cfg s w = t"
    and 7: "last_checks w (get_site_data_path e cfg s) = None \<or>
    last_checks w (get_site_data_path e cfg s) = Some Unparsable \<longrightarrow>
      last_check_time e cfg s w = 0"
    by (auto simp: last_check_time_def)
  from 1 2 3 4 5 6 7 show ?thesis by blast
qed

lemma example_last_check:
  "last_check_time example_env example_config (example_site\<lparr>site_check_interval := v\<rparr>)
     baseline_world = 1000"
  by (simp add: last_check_time_def get_site_data_path_def example_defs)

lemma daemon_visit_due_example:
  "Log_checking ''Example'' ''https://example.com'' \<in>
     set (drop (length (trace baseline_world))
            (trace (daemon_visit example_env example_config 1100
                      (example_site\<lparr>site_check_interval := Some 60\<rparr>) baseline_world))) \<and>
   daemon_visit example_env example_config 1100
     (example_site\<lparr>site_check_interval := Some 200\<rparr>) baseline_world = baseline_world"
proof -
  have a: "active (example_site\<lparr>site_check_interval := Some 60\<rparr>) \<and>
           real_of_int (effective_interval example_config (example_site\<lparr>site_check_interval := Some 60\<rparr>))
             \<le> 1100 - last_check_time example_env example_config
                        (example_site\<lparr>site_check_interval := Some 60\<rparr>) baseline_world"
    unfolding example_last_check by (simp add: effective_interval_def example_site_def)
  have b: "\<not> (active (example_site\<lparr>site_check_interval := Some 200\<rparr>) \<and>
           real_of_int (effective_interval example_config (example_site\<lparr>site_check_interval := Some 200\<rparr>))
             \<le> 1100 - last_check_time example_env example_config
                        (example_site\<lparr>site_check_interval := Some 200\<rparr>) baseline_world)"
    unfolding example_last_check by (simp add: effective_interval_def example_site_def)
  have n: "name (example_site\<lparr>site_check_interval := Some 60\<rparr>) = ''Example''"
    "url (example_site\<lparr>site_check_interval := Some 60\<rparr>) = ''https://example.com''"
    by (simp_all add: example_site_def)
  show ?thesis
    using daemon_visit_due [of "example_site\<lparr>site_check_interval := Some 60\<rparr>" baseline_world
        example_env example_config 1100] a
      daemon_visit_due [of "example_site\<lparr>site_check_interval := Some 200\<rparr>" baseline_world
        example_env example_config 1100] b
    unfolding n by blast
qed

text \<open>
  C6. The claim is what the source means to do: its comment says that the interval of
  the site is preferred, and \<^verbatim>\<open>list_monitored_sites\<close> reads the same key with
  \<^verbatim>\<open>site.get('check_interval', config['check_interval'])\<close>, which keeps an interval of
  zero. \<^verbatim>\<open>run_daemon\<close> reads it with \<^verbatim>\<open>or\<close> and so passes a zero on to the global
  interval. Here the target is active, its own interval is 0 and 100 seconds have
  passed since its last check, so it is due; the daemon measures the 100 seconds
  against the global 3600 and leaves the world as it was, with no check made.
\<close>

theorem daemon_zero_interval_not_checked:
  "active (example_site\<lparr>site_check_interval := Some 0\<rparr>) \<and>
   site_check_interval (example_site\<lparr>site_check_interval := Some 0\<rparr>) = Some 0 \<and>
   real_of_int 0 \<le> 1100 - last_check_time example_env example_config
                          (example_site\<lparr>site_check_interval := Some 0\<rparr>) baseline_world \<and>
   daemon_visit example_env example_config 1100
     (example_site\<lparr>site_check_interval := Some 0\<rparr>) baseline_world = baseline_world"
  unfolding daemon_visit_def example_last_check
  by (simp add: effective_interval_def example_site_def example_config_def)

section \<open>Isolation of a failed target\<close>

lemma fetch_attempts_other_requests:
  "v \<noteq> u \<Longrightarrow> requests_sent (snd (fetch_attempts e u cfg a w)) v = requests_sent w v"
proof (induction e u cfg a w rule: fetch_attempts.induct)
  case (1 e u cfg attempt w)
  show ?case
  proof (cases "attempt < retry_count cfg")
    case False
    then show ?thesis by simp
  next
    case True
    show ?thesis
    proof (cases "requests_get e u (requests_sent w u)")
      case (Response body)
      with True "1.prems" show ?thesis by (simp add: world_simps)
    next
      case RequestException
      show ?thesis
      proof (cases "attempt < retry_count cfg - 1")
        case False
        with True RequestException "1.prems" show ?thesis by (simp add: world_simps)
      next
        case more: True
        let ?v = "sleep (retry_delay cfg) (log_event (Log_fetch_retry u) (log_event (Http_get u)
                    (w\<lparr>requests_sent := (requests_sent w)(u := Suc (requests_sent w u))\<rparr>)))"
        have step: "fetch_attempts e u cfg attempt w = fetch_attempts e u cfg (attempt + 1) ?v"
          using True RequestException more
          by (subst fetch_attempts.simps) (simp add: Let_def del: fetch_attempts.simps)
        have "requests_sent (snd (fetch_attempts e u cfg (attempt + 1) ?v)) v = requests_sent ?v v"
          using "1.IH" [OF True refl RequestException more "1.prems"] .
        then show ?thesis
          unfolding step using "1.prems" by (simp add: world_simps del: fetch_attempts.simps)
      qed
    qed
  qed
qed

lemma fetch_attempts_same_requests:
  "requests_sent w u = requests_sent w' u \<Longrightarrow>
   fst (fetch_attempts e u cfg a w) = fst (fetch_attempts e u cfg a w') \<and>
   requests_sent (snd (fetch_attempts e u cfg a w)) u =
   requests_sent (snd (fetch_attempts e u cfg a w')) u"
proof (induction e u cfg a w arbitrary: w' rule: fetch_attempts.induct)
  case (1 e u cfg attempt w)
  note eq = "1.prems"
  show ?case
  proof (cases "attempt < retry_count cfg")
    case False
    with eq show ?thesis by simp
  next
    case True
    show ?thesis
    proof (cases "requests_get e u (requests_sent w u)")
      case (Response body)
      with True eq show ?thesis by (simp add: world_simps)
    next
      case RequestException
      show ?thesis
      proof (cases "attempt < retry_count cfg - 1")
        case False
        with True RequestException eq show ?thesis by (simp add: world_simps)
      next
        case more: True
        let ?v = "sleep (retry_delay cfg) (log_event (Log_fetch_retry u) (log_event (Http_get u)
                    (w\<lparr>requests_sent := (requests_sent w)(u := Suc (requests_sent w u))\<rparr>)))"
        let ?v' = "sleep (retry_delay cfg) (log_event (Log_fetch_retry u) (log_event (Http_get u)
                    (w'\<lparr>requests_sent := (requests_sent w')(u := Suc (requests_sent w' u))\<rparr>)))"
        have step: "fetch_attempts e u cfg attempt w = fetch_attempts e u cfg (attempt + 1) ?v"
          using True RequestException more
          by (subst fetch_attempts.simps) (simp add: Let_def del: fetch_attempts.simps)
        have step': "fetch_attempts e u cfg attempt w' = fetch_attempts e u cfg (attempt + 1) ?v'"
          using True RequestException more eq
          by (subst fetch_attempts.simps) (simp add: Let_def del: fetch_attempts.simps)
        have "requests_sent ?v u = requests_sent ?v' u"
          using eq by (simp add: world_simps)
        from "1.IH" [OF True refl RequestException more this]
        show ?thesis unfolding step step' .
      qed
    qed
  qed
qed

lemma agree_log_event:
  "agree_apart_from u w w' \<Longrightarrow> agree_apart_from u (log_event ev w) (log_event ev w')"
  by (simp add: agree_apart_from_def world_simps notifications_def)

lemma agree_save_content:
  "agree_apart_from u w w' \<Longrightarrow> agree_apart_from u (save_content c p w) (save_content c p w')"
  by (simp add: agree_apart_from_def world_simps notifications_def)

lemma agree_save_report:
  "agree_apart_from u w w' \<Longrightarrow>
   agree_apart_from u (save_content c (d, ''diff.html'') w) (save_content c' (d, ''diff.html'') w')"
  by (simp add: agree_apart_from_def world_simps notifications_def)

lemma agree_write_last_check:
  "agree_apart_from u w w' \<Longrightarrow>
   agree_apart_from u (write_last_check e d w) (write_last_check e d w')"
  by (simp add: agree_apart_from_def world_simps notifications_def)

lemma send_email_notification_effect:
  "text_files (snd (send_email_notification e s d cfg w)) = text_files w \<and>
   requests_sent (snd (send_email_notification e s d cfg w)) = requests_sent w \<and>
   clock (snd (send_email_notification e s d cfg w)) = clock w \<and>
   notifications (snd (send_email_notification e s d cfg w)) =
     notifications w @ fst (notification_attempts cfg s d)"
  by (simp add: send_email_notification_def notification_attempts_def Let_def world_simps
        notifications_def is_notification_def)

lemma send_desktop_notification_effect:
  "text_files (snd (send_desktop_notification e s d w)) = text_files w \<and>
   requests_sent (snd (send_desktop_notification e s d w)) = requests_sent w \<and>
   clock (snd (send_desktop_notification e s d w)) = clock w \<and>
   notifications (snd (send_desktop_notification e s d w)) =
     notifications w @ [Desktop_notify (name s) (url s)]"
  by (simp add: send_desktop_notification_def Let_def world_simps
        notifications_def is_notification_def)

lemma send_notification_effect:
  "text_files (snd (send_notification e s d cfg w)) = text_files w \<and>
   requests_sent (snd (send_notification e s d cfg w)) = requests_sent w \<and>
   notifications (snd (send_notification e s d cfg w)) =
     notifications w @ fst (notification_attempts cfg s d) @ snd (notification_attempts cfg s d)"
proof -
  obtain b1 w1 where 1: "(if email_enabled (email (notification cfg))
             then send_email_notification e s d cfg w else (False, w)) = (b1, w1)"
    by (cases "if email_enabled (email (notification cfg))
             then send_email_notification e s d cfg w else (False, w)")
  obtain b2 w2 where 2: "(if desktop_enabled (notification cfg)
             then send_desktop_notification e s d w1 else (False, w1)) = (b2, w2)"
    by (cases "if desktop_enabled (notification cfg)
             then send_desktop_notification e s d w1 else (False, w1)")
  have r: "snd (send_notification e s d cfg w) = w2"
    unfolding send_notification_def Let_def 1 prod.case 2 by simp
  have e1: "text_files w1 = text_files w \<and> requests_sent w1 = requests_sent w \<and>
            notifications w1 = notifications w @ fst (notification_attempts cfg s d)"
  proof (cases "email_enabled (email (notification cfg))")
    case True
    with 1 have "w1 = snd (send_email_notification e s d cfg w)" by simp
    then show ?thesis using send_email_notification_effect [of e s d cfg w] by simp
  next
    case False
    with 1 show ?thesis by (auto simp: notification_attempts_def Let_def)
  qed
  have e2: "text_files w2 = text_files w1 \<and> requests_sent w2 = requests_sent w1 \<and>
            notifications w2 = notifications w1 @ snd (notification_attempts cfg s d)"
  proof (cases "desktop_enabled (notification cfg)")
    case True
    with 2 have "w2 = snd (send_desktop_notification e s d w1)" by simp
    then show ?thesis
      using send_desktop_notification_effect [of e s d w1] True
      by (simp add: notification_attempts_def Let_def)
  next
    case False
    with 2 show ?thesis by (auto simp: notification_attempts_def Let_def)
  qed
  from e1 e2 show ?thesis unfolding r by simp
qed

lemma agree_send_notification:
  "agree_apart_from u w w' \<Longrightarrow>
   agree_apart_from u (snd (send_notification e s d cfg w)) (snd (send_notification e s d cfg w'))"
  using send_notification_effect [of e s d cfg w] send_notification_effect [of e s d cfg w']
  by (simp add: agree_apart_from_def)

lemma agree_fetch:
  assumes r: "agree_apart_from u w w'" and b: "v \<noteq> u"
      and f: "fetch_website_content e v cfg w = (r1, w1)"
      and f': "fetch_website_content e v cfg w' = (r1', w1')"
  shows "r1 = r1' \<and> agree_apart_from u w1 w1'"
proof -
  have eq: "requests_sent w v = requests_sent w' v"
    using r b by (simp add: agree_apart_from_def)
  from fetch_attempts_same_requests [OF eq, of e cfg 0] f f'
  have 1: "r1 = r1'" and 2: "requests_sent w1 v = requests_sent w1' v"
    by (simp_all add: fetch_website_content_def del: fetch_attempts.simps)
  have 3: "x \<noteq> v \<Longrightarrow> requests_sent w1 x = requests_sent w x" for x
    using fetch_attempts_other_requests [of x v e cfg 0 w] f
    by (simp add: fetch_website_content_def del: fetch_attempts.simps)
  have 4: "x \<noteq> v \<Longrightarrow> requests_sent w1' x = requests_sent w' x" for x
    using fetch_attempts_other_requests [of x v e cfg 0 w'] f'
    by (simp add: fetch_website_content_def del: fetch_attempts.simps)
  have 5: "\<forall>x. x \<noteq> u \<longrightarrow> requests_sent w1 x = requests_sent w1' x"
  proof (intro allI impI)
    fix x assume "x \<noteq> u"
    show "requests_sent w1 x = requests_sent w1' x"
    proof (cases "x = v")
      case True
      with 2 show ?thesis by simp
    next
      case False
      with 3 4 r \<open>x \<noteq> u\<close> show ?thesis by (simp add: agree_apart_from_def)
    qed
  qed
  from fetch_text_files [OF f] fetch_text_files [OF f'] r 5
  have "agree_apart_from u w1 w1'" by (simp add: agree_apart_from_def)
  with 1 show ?thesis by simp
qed

lemma agree_check:
  assumes r: "agree_apart_from u w w'" and b: "url s \<noteq> u"
  shows "fst (check_website_changes e s cfg False w) = fst (check_website_changes e s cfg False w') \<and>
         agree_apart_from u (snd (check_website_changes e s cfg False w))
           (snd (check_website_changes e s cfg False w'))"
proof -
  let ?ev = "Log_checking (name s) (url s)"
  let ?dir = "get_site_data_path e cfg s"
  let ?x = "\<lambda>html. extract_content e html (case selector s of None \<Rightarrow> ''body'' | Some sel \<Rightarrow> sel)
                  (ignore_patterns s)"
  obtain r1 w1 where f: "fetch_website_content e (url s) cfg (log_event ?ev w) = (r1, w1)"
    by (cases "fetch_website_content e (url s) cfg (log_event ?ev w)")
  obtain r1' w1' where f': "fetch_website_content e (url s) cfg (log_event ?ev w') = (r1', w1')"
    by (cases "fetch_website_content e (url s) cfg (log_event ?ev w')")
  from agree_fetch [OF agree_log_event [OF r] b f f']
  have req: "r1' = r1" and r1: "agree_apart_from u w1 w1'" by simp_all
  note f' = f' [unfolded req]
  have l: "load_content (?dir, ''content.txt'') w' = load_content (?dir, ''content.txt'') w"
    using r by (simp add: agree_apart_from_def load_content_def)
  show ?thesis
  proof (cases "r1 = None \<or> r1 = Some []")
    case True
    show ?thesis
      unfolding check_no_content [OF f True] check_no_content [OF f' True]
      using agree_log_event [OF r1] by simp
  next
    case False
    then obtain html where h: "r1 = Some html" and hn: "html \<noteq> []" by auto
    note g = f [unfolded h] and g' = f' [unfolded h]
    let ?w2 = "save_content html (?dir, ''raw.html'') w1"
    let ?w2' = "save_content html (?dir, ''raw.html'') w1'"
    have r2: "agree_apart_from u ?w2 ?w2'" using r1 by (rule agree_save_content)
    show ?thesis
    proof (cases "load_content (?dir, ''content.txt'') w = None \<or>
                  load_content (?dir, ''content.txt'') w = Some []")
      case True
      then have c: "load_content (?dir, ''content.txt'') w = None \<or>
                 load_content (?dir, ''content.txt'') w = Some [] \<or> False" by blast
      then have c': "load_content (?dir, ''content.txt'') w' = None \<or>
                 load_content (?dir, ''content.txt'') w' = Some [] \<or> False" by (simp only: l)
      show ?thesis
        unfolding check_baseline [OF g hn c] check_baseline [OF g' hn c']
        using agree_write_last_check [OF agree_save_content [OF agree_log_event [OF r2]]]
        by simp
    next
      case False
      then obtain prev where p: "load_content (?dir, ''content.txt'') w = Some prev"
        and pn: "prev \<noteq> []" by auto
      have p': "load_content (?dir, ''content.txt'') w' = Some prev" using p by (simp only: l)
      let ?w3 = "write_last_check e ?dir ?w2"
      let ?w3' = "write_last_check e ?dir ?w2'"
      have r3: "agree_apart_from u ?w3 ?w3'" using r2 by (rule agree_write_last_check)
      show ?thesis
      proof (cases "compute_diff e prev (?x html)")
        case None
        show ?thesis
          unfolding check_compare [OF g hn p pn] check_compare [OF g' hn p' pn] Let_def None
          using agree_log_event [OF r3] by simp
      next
        case (Some d)
        then have dn: "d \<noteq> []" by (rule compute_diff_Some_nonempty)
        let ?w4 = "save_content d (?dir, ''diff.txt'') (log_event (Log_change_detected (name s)) ?w3)"
        let ?w4' = "save_content d (?dir, ''diff.txt'') (log_event (Log_change_detected (name s)) ?w3')"
        have r4: "agree_apart_from u ?w4 ?w4'"
          using agree_save_content [OF agree_log_event [OF r3]] .
        let ?w6 = "save_content (?x html) (?dir, ''content.txt'')
                     (save_content (format_diff_html e prev (?x html) (name s) (url s) (clock ?w4))
                        (?dir, ''diff.html'') ?w4)"
        let ?w6' = "save_content (?x html) (?dir, ''content.txt'')
                     (save_content (format_diff_html e prev (?x html) (name s) (url s) (clock ?w4'))
                        (?dir, ''diff.html'') ?w4')"
        have r6: "agree_apart_from u ?w6 ?w6'"
          using agree_save_content [OF agree_save_report [OF r4]] .
        have c: "check_website_changes e s cfg False w = (True, snd (send_notification e s d cfg ?w6))"
          unfolding check_compare [OF g hn p pn] Let_def Some
          using dn by simp
        have c': "check_website_changes e s cfg False w' = (True, snd (send_notification e s d cfg ?w6'))"
          unfolding check_compare [OF g' hn p' pn] Let_def Some
          using dn by simp
        show ?thesis
          unfolding c c' using agree_send_notification [OF r6] by simp
      qed
    qed
  qed
qed

lemma agree_check_sites_loop:
  "agree_apart_from u w w' \<Longrightarrow> \<forall>b \<in> set ss. url b \<noteq> u \<Longrightarrow>
   fst (check_sites_loop e cfg ss c w) = fst (check_sites_loop e cfg ss c w') \<and>
   agree_apart_from u (snd (check_sites_loop e cfg ss c w)) (snd (check_sites_loop e cfg ss c w'))"
proof (induction ss arbitrary: c w w')
  case Nil
  then show ?case by simp
next
  case (Cons s rest)
  show ?case
  proof (cases "active s")
    case False
    with Cons.IH [OF agree_log_event [OF Cons.prems(1)]] Cons.prems(2)
    show ?thesis by simp
  next
    case True
    from Cons.prems(2) have b: "url s \<noteq> u" and rest: "\<forall>b \<in> set rest. url b \<noteq> u" by simp_all
    obtain ch w1 where k: "check_website_changes e s cfg False w = (ch, w1)"
      by (cases "check_website_changes e s cfg False w")
    obtain ch' w1' where k': "check_website_changes e s cfg False w' = (ch', w1')"
      by (cases "check_website_changes e s cfg False w'")
    from agree_check [OF Cons.prems(1) b, of e cfg] k k'
    have "ch' = ch" and "agree_apart_from u w1 w1'" by simp_all
    with Cons.IH [OF \<open>agree_apart_from u w1 w1'\<close> rest] True k k'
    show ?thesis by simp
  qed
qed

lemma check_sites_loop_append:
  "check_sites_loop e cfg (xs @ ys) c w =
   check_sites_loop e cfg ys (fst (check_sites_loop e cfg xs c w))
     (snd (check_sites_loop e cfg xs c w))"
  by (induction xs arbitrary: c w) (simp_all split: prod.splits)

lemma check_fetch_exhausted:
  assumes "\<forall>k < nat (retry_count cfg).
             requests_get e (url s) (requests_sent w (url s) + k) = RequestException"
  shows "\<exists>w1. fetch_website_content e (url s) cfg (log_event (Log_checking (name s) (url s)) w) =
                (None, w1) \<and>
              check_website_changes e s cfg force w = (False, log_event (Log_no_content (name s)) w1)"
proof -
  let ?w0 = "log_event (Log_checking (name s) (url s)) w"
  from assms have "\<forall>k < nat (retry_count cfg - 0).
        requests_get e (url s) (requests_sent ?w0 (url s) + k) = RequestException"
    by (simp add: world_simps)
  from fetch_attempts_exhausted [OF this]
  have "fst (fetch_website_content e (url s) cfg ?w0) = None"
    by (simp add: fetch_website_content_def del: fetch_attempts.simps)
  then obtain w1 where f: "fetch_website_content e (url s) cfg ?w0 = (None, w1)"
    by (cases "fetch_website_content e (url s) cfg ?w0") simp
  from check_no_content [OF f disjI1 [OF refl]] f show ?thesis by blast
qed

text \<open>
  C8. In a cycle over all targets, a target whose every request fails does not stop the
  cycle: the loop goes on with the remaining targets, from a store the failed check has
  not touched. When no remaining target has the URL of the failed one, the cycle ends
  with the same verdict, the same text files apart from the time-stamped HTML reports,
  and the same notifications as the cycle without the failed target.
\<close>

theorem fetch_failure_isolated:
  assumes "check_sites_loop e cfg pre False w0 = (c, w)"
      and "active a"
      and "\<forall>k < nat (retry_count cfg).
             requests_get e (url a) (requests_sent w (url a) + k) = RequestException"
  shows "check_sites_loop e cfg (pre @ a # post) False w0 =
           check_sites_loop e cfg post c (snd (check_website_changes e a cfg False w)) \<and>
         fst (check_website_changes e a cfg False w) = False \<and>
         text_files (snd (check_website_changes e a cfg False w)) = text_files w \<and>
         last_checks (snd (check_website_changes e a cfg False w)) = last_checks w \<and>
         (sites cfg = pre @ a # post \<longrightarrow>
            check_sites e cfg None w0 =
              (Some (fst (check_sites_loop e cfg post c (snd (check_website_changes e a cfg False w)))),
               snd (check_sites_loop e cfg post c (snd (check_website_changes e a cfg False w))))) \<and>
         ((\<forall>b \<in> set post. url b \<noteq> url a) \<longrightarrow>
            fst (check_sites_loop e cfg (pre @ a # post) False w0) =
              fst (check_sites_loop e cfg (pre @ post) False w0) \<and>
            (\<forall>d f. f \<noteq> ''diff.html'' \<longrightarrow>
               text_files (snd (check_sites_loop e cfg (pre @ a # post) False w0)) (d, f) =
               text_files (snd (check_sites_loop e cfg (pre @ post) False w0)) (d, f)) \<and>
            notifications (snd (check_sites_loop e cfg (pre @ a # post) False w0)) =
              notifications (snd (check_sites_loop e cfg (pre @ post) False w0)))"
proof -
  let ?ev = "Log_checking (name a) (url a)"
  let ?wa = "snd (check_website_changes e a cfg False w)"
  obtain w1 where f: "fetch_website_content e (url a) cfg (log_event ?ev w) = (None, w1)"
    and k: "check_website_changes e a cfg False w = (False, log_event (Log_no_content (name a)) w1)"
    using check_fetch_exhausted [OF assms(3)] by blast
  have fr: "text_files w1 = text_files w" "last_checks w1 = last_checks w"
    "notifications w1 = notifications w"
    using fetch_text_files [OF f]
    by (simp_all add: notifications_def log_event_def is_notification_def)
  have 1: "check_sites_loop e cfg (pre @ a # post) False w0 = check_sites_loop e cfg post c ?wa"
    unfolding check_sites_loop_append assms(1) using assms(2) k by simp
  have 2: "fst (check_website_changes e a cfg False w) = False"
    and 3: "text_files ?wa = text_files w"
    and 4: "last_checks ?wa = last_checks w"
    unfolding k using fr by (simp_all add: world_simps)
  have 5: "sites cfg = pre @ a # post \<longrightarrow>
            check_sites e cfg None w0 =
              (Some (fst (check_sites_loop e cfg post c ?wa)), snd (check_sites_loop e cfg post c ?wa))"
  proof
    assume s: "sites cfg = pre @ a # post"
    then have ne: "sites cfg \<noteq> []" by simp
    show "check_sites e cfg None w0 =
              (Some (fst (check_sites_loop e cfg post c ?wa)), snd (check_sites_loop e cfg post c ?wa))"
      unfolding check_sites_def using ne
      by (simp add: s 1 split: prod.splits)
  qed
  have other: "v \<noteq> url a \<Longrightarrow> requests_sent w1 v = requests_sent w v" for v
    using fetch_attempts_other_requests [of v "url a" e cfg 0 "log_event ?ev w"] f
    by (simp add: fetch_website_content_def world_simps del: fetch_attempts.simps)
  have ag: "agree_apart_from (url a) ?wa w"
    unfolding k using fr other
    by (simp add: agree_apart_from_def world_simps notifications_def is_notification_def)
  have 6: "(\<forall>b \<in> set post. url b \<noteq> url a) \<longrightarrow>
            fst (check_sites_loop e cfg (pre @ a # post) False w0) =
              fst (check_sites_loop e cfg (pre @ post) False w0) \<and>
            (\<forall>d f. f \<noteq> ''diff.html'' \<longrightarrow>
               text_files (snd (check_sites_loop e cfg (pre @ a # post) False w0)) (d, f) =
               text_files (snd (check_sites_loop e cfg (pre @ post) False w0)) (d, f)) \<and>
            notifications (snd (check_sites_loop e cfg (pre @ a # post) False w0)) =
              notifications (snd (check_sites_loop e cfg (pre @ post) False w0))"
  proof
    assume u: "\<forall>b \<in> set post. url b \<noteq> url a"
    have without: "check_sites_loop e cfg (pre @ post) False w0 = check_sites_loop e cfg post c w"
      unfolding check_sites_loop_append assms(1) by simp
    from agree_check_sites_loop [OF ag u, of e cfg c]
    show "fst (check_sites_loop e cfg (pre @ a # post) False w0) =
              fst (check_sites_loop e cfg (pre @ post) False w0) \<and>
            (\<forall>d f. f \<noteq> ''diff.html'' \<longrightarrow>
               text_files (snd (check_sites_loop e cfg (pre @ a # post) False w0)) (d, f) =
               text_files (snd (check_sites_loop e cfg (pre @ post) False w0)) (d, f)) \<and>
            notifications (snd (check_sites_loop e cfg (pre @ a # post) False w0)) =
              notifications (snd (check_sites_loop e cfg (pre @ post) False w0))"
      unfolding 1 without by (simp add: agree_apart_from_def)
  qed
  from 1 2 3 4 5 6 show ?thesis by blast
qed

lemma mixed_changed_check:
  "check_sites_loop mixed_env example_config [example_site] False second_visit_world =
     (True,
      second_visit_world
        \<lparr>text_files := (text_files second_visit_world)
           ((example_dir, ''raw.html'') \<mapsto> ''<div id=content>Hello  World</div>'',
            (example_dir, ''diff.txt'') \<mapsto> ''- Hello'' @ CHR 0x0A # ''+ Hello World'',
            (example_dir, ''diff.html'') \<mapsto> ''<html>2026-01-01 00:00:00</html>'',
            (example_dir, ''content.txt'') \<mapsto> ''Hello World''),
         last_checks := (last_checks second_visit_world)
           (example_dir \<mapsto> Check_info 1100 ''2026-01-01 00:00:00''),
         requests_sent := (\<lambda>u. 1)(''https://example.com'' := Suc (Suc 0)),
         trace := [Log_checking ''Example'' ''https://example.com'', Http_get ''https://example.com'',
                   Log_change_detected ''Example'', Desktop_notify ''Example'' ''https://example.com'']\<rparr>)"
  by (simp add: check_website_changes_def fetch_website_content_def example_defs mixed_env_def
        log_event_def Let_def load_content_def get_site_data_path_def save_content_def
        run_file_ops_def save_steps_def write_last_check_def extract_content_def normalize_ws_def
        strip_def isspace_def compute_diff_def naive_compare_def splitlines_def is_linebreak_def
        startswith_def format_diff_html_def send_notification_def send_desktop_notification_def)

theorem fetch_failure_isolated_witness:
  "fst (check_sites_loop mixed_env example_config [down_site, example_site] False
          second_visit_world) = True \<and>
   text_files (snd (check_sites_loop mixed_env example_config [down_site, example_site] False
                      second_visit_world)) (example_dir, ''content.txt'') = Some ''Hello World'' \<and>
   text_files (snd (check_sites_loop mixed_env example_config [down_site, example_site] False
                      second_visit_world))
     (''monitor_data/0580d0ad1abad504113887be7b5999a8'', ''content.txt'') = None \<and>
   notifications (snd (check_sites_loop mixed_env example_config [down_site, example_site] False
                         second_visit_world)) = [Desktop_notify ''Example'' ''https://example.com'']"
proof -
  have a1: "check_sites_loop mixed_env example_config [] False second_visit_world =
            (False, second_visit_world)" by simp
  have a2: "active down_site" by (simp add: down_site_def example_site_def)
  have a3: "\<forall>k < nat (retry_count example_config).
              requests_get mixed_env (url down_site)
                (requests_sent second_visit_world (url down_site) + k) = RequestException"
    by (simp add: mixed_env_def down_site_def)
  have u: "\<forall>b \<in> set [example_site]. url b \<noteq> url down_site"
    by (simp add: down_site_def example_site_def)
  have n: "(''content.txt'' :: string) \<noteq> ''diff.html''" by simp
  from fetch_failure_isolated [OF a1 a2 a3, of "[example_site]"] u
  have "fst (check_sites_loop mixed_env example_config ([] @ down_site # [example_site]) False
               second_visit_world) =
        fst (check_sites_loop mixed_env example_config ([] @ [example_site]) False second_visit_world)"
    and "\<forall>d f. f \<noteq> ''diff.html'' \<longrightarrow>
           text_files (snd (check_sites_loop mixed_env example_config ([] @ down_site # [example_site])
                              False second_visit_world)) (d, f) =
           text_files (snd (check_sites_loop mixed_env example_config ([] @ [example_site]) False
                              second_visit_world)) (d, f)"
    and "notifications (snd (check_sites_loop mixed_env example_config ([] @ down_site # [example_site])
                              False second_visit_world)) =
         notifications (snd (check_sites_loop mixed_env example_config ([] @ [example_site]) False
                              second_visit_world))"
    by blast+
  then show ?thesis
    unfolding append_Nil mixed_changed_check using n
    by (simp add: notifications_def is_notification_def example_defs)
qed

end
